theory Spec2Isabelle
  imports Main "HOL-Library.Sublist"
begin

section \<open>Python primitives used by the template engine\<close>

text \<open>
  Lines are Python strings, modelled as \<open>string\<close>. The engine uses four string
  primitives: the substring test \<open>x in line\<close>, \<open>line.find(c)\<close> and
  \<open>line.rfind(c)\<close> for a one-character \<open>c\<close> (both answer \<open>-1\<close> when the
  character is absent), and slicing with bounds that may be negative.
\<close>

fun str_in :: "string \<Rightarrow> string \<Rightarrow> bool" where
  "str_in sub [] = (sub = [])"
| "str_in sub (c # cs) = (prefix sub (c # cs) \<or> str_in sub cs)"

fun py_find :: "char \<Rightarrow> string \<Rightarrow> int" where
  "py_find c [] = - 1"
| "py_find c (x # xs) =
     (if x = c then 0 else (let r = py_find c xs in if r < 0 then - 1 else r + 1))"

fun py_rfind :: "char \<Rightarrow> string \<Rightarrow> int" where
  "py_rfind c [] = - 1"
| "py_rfind c (x # xs) =
     (let r = py_rfind c xs in if 0 \<le> r then r + 1 else if x = c then 0 else - 1)"

text \<open>
  A slice bound \<open>i\<close> on a sequence of length \<open>n\<close>: a negative bound counts from
  the end, and every bound is clamped to \<open>0..n\<close>. A bound left out is \<open>None\<close>.
\<close>

definition py_index :: "int \<Rightarrow> nat \<Rightarrow> nat" where
  "py_index i n = (if i < 0 then nat (max 0 (i + int n)) else min (nat i) n)"

definition py_slice :: "int option \<Rightarrow> int option \<Rightarrow> 'a list \<Rightarrow> 'a list" where
  "py_slice lo hi xs =
     (let n = length xs;
          a = (case lo of None \<Rightarrow> 0 | Some i \<Rightarrow> py_index i n);
          b = (case hi of None \<Rightarrow> n | Some j \<Rightarrow> py_index j n)
      in take (b - a) (drop a xs))"

section \<open>The template engine (src/pds4/template.py)\<close>

text \<open>The class holds one field, the list of lines read from the template file.\<close>

record XML_Template =
  data :: "string list"

datatype error = IndexError | TypeError | KeyError | ValueError

datatype py_value = Str string | StrList "string list" | PyNone

subsection \<open>replace\<close>

text \<open>
  Lines 82 to 86: the rewritten line is \<open>line[:start+1] + replace_string + line[stop:]\<close>
  with \<open>start = line.find('>')\<close> and \<open>stop = line.rfind('<')\<close>.
\<close>

definition new_line :: "string \<Rightarrow> string \<Rightarrow> string" where
  "new_line replace_string line =
     (let start = py_find CHR ''>'' line;
          stop = py_rfind CHR ''<'' line
      in py_slice None (Some (start + 1)) line @ replace_string @ py_slice (Some stop) None line)"

text \<open>
  The loop of lines 76 to 93 assigns \<open>self.data[index]\<close> while it enumerates
  \<open>self.data\<close>. The assignment keeps the length of the list and touches only the
  element already read, so the loop is a recursion over the lines; \<open>break\<close> leaves
  the remaining lines as they are.
\<close>

fun replace_loop :: "string \<Rightarrow> string \<Rightarrow> bool \<Rightarrow> string list \<Rightarrow> string list" where
  "replace_loop xml_string replace_string replace_one [] = []"
| "replace_loop xml_string replace_string replace_one (line # rest) =
     (if str_in xml_string line
      then new_line replace_string line #
             (if replace_one then rest
              else replace_loop xml_string replace_string replace_one rest)
      else line # replace_loop xml_string replace_string replace_one rest)"

definition replace :: "string \<Rightarrow> string \<Rightarrow> bool \<Rightarrow> XML_Template \<Rightarrow> XML_Template" where
  "replace xml_string replace_string replace_one t =
     t\<lparr>data := replace_loop xml_string replace_string replace_one (data t)\<rparr>"

subsection \<open>insert\<close>

text \<open>
  \<open>insert_string\<close> is a list of lines, one string, or a value of another type, for
  which neither branch of lines 119 to 122 assigns anything.
\<close>

datatype py_arg = PyList "string list" | PyStr string | PyOther

text \<open>The indices of the lines that contain the marker, in document order.\<close>

definition match_indices :: "string \<Rightarrow> string list \<Rightarrow> nat list" where
  "match_indices xml_after d = filter (\<lambda>i. str_in xml_after (d ! i)) [0..<length d]"

text \<open>The slice assignment \<open>d[k:k] = xs\<close> for \<open>k\<close> within the list.\<close>

definition splice :: "nat \<Rightarrow> string list \<Rightarrow> string list \<Rightarrow> string list" where
  "splice k xs d = take k d @ xs @ drop k d"

text \<open>
  For a location other than \<open>'last'\<close> and \<open>'first'\<close> line 116 builds a
  \<open>SyntaxError\<close> and drops it; \<open>ind\<close> is still a list, and \<open>ind+1\<close> raises
  \<open>TypeError\<close> as soon as a branch of lines 119 to 122 evaluates it.
\<close>

definition insert_xml :: "string \<Rightarrow> py_arg \<Rightarrow> string \<Rightarrow> XML_Template \<Rightarrow> error + XML_Template" where
  "insert_xml xml_after insert_string location t =
     (let ind = match_indices xml_after (data t) in
      if ind = [] then Inr t
      else if location = ''last'' \<or> location = ''first'' then
        (let i = (if location = ''last'' then last ind else hd ind) in
         case insert_string of
           PyList ls \<Rightarrow> Inr (t\<lparr>data := splice (i + 1) ls (data t)\<rparr>)
         | PyStr s \<Rightarrow> Inr (t\<lparr>data := splice (i + 1) [s] (data t)\<rparr>)
         | PyOther \<Rightarrow> Inr t)
      else
        (case insert_string of
           PyList ls \<Rightarrow> Inl TypeError
         | PyStr s \<Rightarrow> Inl TypeError
         | PyOther \<Rightarrow> Inr t))"

subsection \<open>read\<close>

text \<open>Line 141: \<open>line[start+1:stop]\<close>.\<close>

definition found_value :: "string \<Rightarrow> string" where
  "found_value line =
     (let start = py_find CHR ''>'' line;
          stop = py_rfind CHR ''<'' line
      in py_slice (Some (start + 1)) (Some stop) line)"

text \<open>
  The loop of lines 131 to 145 either returns from inside (search type \<open>'first'\<close>)
  or runs to its end with the collected values.
\<close>

datatype loop_exit = Return string | Done "string list"

fun read_loop :: "string \<Rightarrow> string \<Rightarrow> string list \<Rightarrow> string list \<Rightarrow> loop_exit" where
  "read_loop xml_string searchtype val [] = Done val"
| "read_loop xml_string searchtype val (line # rest) =
     (if str_in xml_string line
      then (if searchtype = ''first'' then Return (found_value line)
            else read_loop xml_string searchtype (val @ [found_value line]) rest)
      else read_loop xml_string searchtype val rest)"

text \<open>
  Lines 147 to 152. \<open>val[-1]\<close> on the empty list raises \<open>IndexError\<close>. The last
  branch builds an \<open>IOError\<close> and drops it, so the method ends without a
  \<open>return\<close> and its value is \<open>None\<close>.
\<close>

definition read :: "string \<Rightarrow> string \<Rightarrow> XML_Template \<Rightarrow> error + py_value" where
  "read xml_string searchtype t =
     (case read_loop xml_string searchtype [] (data t) of
        Return v \<Rightarrow> Inr (Str v)
      | Done val \<Rightarrow>
          if searchtype = ''all'' then Inr (StrList val)
          else if searchtype = ''last'' then
            (if val = [] then Inl IndexError else Inr (Str (last val)))
          else Inr PyNone)"

subsection \<open>Key-value lines\<close>

text \<open>
  The data model of the engine takes a line that holds a marker to carry one value between
  the first \<open>>\<close> and the last \<open><\<close> of the line. The engine itself never checks
  this; the predicate says that the line has a \<open>>\<close> and that its first \<open>>\<close> stands
  before its last \<open><\<close>.
\<close>

definition key_value_line :: "string \<Rightarrow> bool" where
  "key_value_line line \<longleftrightarrow>
     0 \<le> py_find CHR ''>'' line \<and> py_find CHR ''>'' line < py_rfind CHR ''<'' line"

section \<open>The segment loop of the label writer (scripts/pds4.trk234.py)\<close>

text \<open>
  Lines 205 to 208 of \<open>Label.fill\<close>: the lines of a sub-template go into the host
  document after the last line holding \<open></Table_Binary>\<close> when some line of the host
  holds \<open><Table_Binary>\<close>, and after the last line holding \<open></File>\<close> otherwise.
\<close>

definition insert_table :: "XML_Template \<Rightarrow> XML_Template \<Rightarrow> error + XML_Template" where
  "insert_table host sub =
     (if list_ex (str_in ''<Table_Binary>'') (data host)
      then insert_xml ''</Table_Binary>'' (PyList (data sub)) ''last'' host
      else insert_xml ''</File>'' (PyList (data sub)) ''last'' host)"

text \<open>
  The two markers of the loop whose text holds a double quote.
\<close>

definition record_length_key :: string where
  \<open>record_length_key = ''<record_length unit="byte">''\<close>

definition offset_key :: string where
  \<open>offset_key = ''<offset unit="byte">''\<close>

subsection \<open>The built-ins int and str\<close>

text \<open>
  \<open>int(s)\<close> for a string: white space around the literal (the codes 9 to 13 and the
  blank, 32) is dropped, one sign may lead,
  and the rest is a non-empty run of decimal digits in which single underscores may stand
  between digits. Anything else raises \<open>ValueError\<close>; \<open>int(None)\<close> raises
  \<open>TypeError\<close>. The model covers ASCII text, which is what the templates hold. The
  interpreter's adjustable limit on the number of digits of a conversion is left out: the
  integers are unbounded, as Python's are.
\<close>

definition is_space :: "char \<Rightarrow> bool" where
  "is_space c = (let n = (of_char c :: nat) in (9 \<le> n \<and> n \<le> 13) \<or> n = 32)"

definition is_digit :: "char \<Rightarrow> bool" where
  "is_digit c = (let n = (of_char c :: nat) in 48 \<le> n \<and> n \<le> 57)"

definition digit_value :: "char \<Rightarrow> int" where
  "digit_value c = int (of_char c) - 48"

definition strip :: "string \<Rightarrow> string" where
  "strip s = rev (dropWhile is_space (rev (dropWhile is_space s)))"

fun digits_ok :: "string \<Rightarrow> bool" where
  "digits_ok [] = False"
| "digits_ok [c] = is_digit c"
| "digits_ok (c # d # rest) =
     (is_digit c \<and> (if d = CHR ''_'' then digits_ok rest else digits_ok (d # rest)))"

definition digits_value :: "string \<Rightarrow> int" where
  "digits_value s = foldl (\<lambda>acc c. acc * 10 + digit_value c) 0 (filter (\<lambda>c. c \<noteq> CHR ''_'') s)"

definition int_literal :: "string \<Rightarrow> int option" where
  "int_literal s =
     (let t = strip s;
          (sign, body) = (case t of
                            c # r \<Rightarrow> if c = CHR ''-'' then (- 1, r)
                                     else if c = CHR ''+'' then (1, r) else (1, t)
                          | [] \<Rightarrow> (1, t))
      in if digits_ok body then Some (sign * digits_value body) else None)"

definition py_int :: "py_value \<Rightarrow> error + int" where
  "py_int x =
     (case x of
        Str s \<Rightarrow> (case int_literal s of None \<Rightarrow> Inl ValueError | Some n \<Rightarrow> Inr n)
      | StrList l \<Rightarrow> Inl TypeError
      | PyNone \<Rightarrow> Inl TypeError)"

text \<open>\<open>str(i)\<close> for an integer: the decimal digits, after a minus sign when negative.\<close>

fun str_nat :: "nat \<Rightarrow> string" where
  "str_nat n =
     (if n < 10 then [''0123456789'' ! n]
      else str_nat (n div 10) @ [''0123456789'' ! (n mod 10)])"

declare str_nat.simps [simp del]

definition py_str :: "int \<Rightarrow> string" where
  "py_str i = (if i < 0 then CHR ''-'' # str_nat (nat (- i)) else str_nat (nat i))"

subsection \<open>The label and the file information\<close>

text \<open>
  \<open>trk234.Info\<close> comes from a library outside the repository. The loop reads two of
  its fields: the list of the kinds present and the number of records of each kind. A
  kind with no entry makes the subscript of line 188 raise a lookup error.
\<close>

record Info =
  dataTypes :: "int list"
  numberDataTypes :: "int \<rightharpoonup> int"

record Label =
  Template :: XML_Template
  tableTemplate :: "XML_Template list"
  trk234_info :: Info

text \<open>
  Subscripting a list with an integer: a negative index counts from the end, an index out
  of range raises \<open>IndexError\<close>.
\<close>

definition py_position :: "nat \<Rightarrow> int \<Rightarrow> nat" where
  "py_position n i = (if i < 0 then nat (i + int n) else nat i)"

definition py_getitem :: "'a list \<Rightarrow> int \<Rightarrow> error + 'a" where
  "py_getitem xs i =
     (let n = int (length xs); j = (if i < 0 then i + n else i)
      in if 0 \<le> j \<and> j < n then Inr (xs ! py_position (length xs) i) else Inl IndexError)"

text \<open>
  One pass of the loop body, lines 187 to 208, for the kind \<open>i\<close> and the running
  \<open>byte_location\<close>. The sub-template is changed in place, so the list of templates
  holds the changed one afterwards; the host document receives its lines.
\<close>

definition fill_step :: "Label \<Rightarrow> int \<Rightarrow> int \<Rightarrow> error + (int \<times> Label)" where
  "fill_step self byte_location i =
     (case numberDataTypes (trk234_info self) i of
        None \<Rightarrow> Inl KeyError
      | Some n_sfdus \<Rightarrow>
          (case py_getitem (tableTemplate self) i of
             Inl e \<Rightarrow> Inl e
           | Inr tt \<Rightarrow>
               (case read record_length_key ''first'' tt of
                  Inl e \<Rightarrow> Inl e
                | Inr r \<Rightarrow>
                    (case py_int r of
                       Inl e \<Rightarrow> Inl e
                     | Inr n_bits \<Rightarrow>
                         (let tt1 = replace offset_key (py_str byte_location) False tt;
                              tt2 = replace ''<records>'' (py_str n_sfdus) True tt1;
                              tt3 = replace ''<groups>'' ''0'' True tt2;
                              tabs = (tableTemplate self)
                                       [py_position (length (tableTemplate self)) i := tt3];
                              byte_location' = byte_location + n_bits * n_sfdus
                          in case insert_table (Template self) tt3 of
                               Inl e \<Rightarrow> Inl e
                             | Inr host \<Rightarrow>
                                 Inr (byte_location',
                                      self\<lparr>Template := host, tableTemplate := tabs\<rparr>))))))"

text \<open>The loop of line 185 over the kinds, and line 184 before it.\<close>

fun fill_loop :: "Label \<Rightarrow> int \<Rightarrow> int list \<Rightarrow> error + (int \<times> Label)" where
  "fill_loop self byte_location [] = Inr (byte_location, self)"
| "fill_loop self byte_location (i # rest) =
     (case fill_step self byte_location i of
        Inl e \<Rightarrow> Inl e
      | Inr (b, self') \<Rightarrow> fill_loop self' b rest)"

definition fill_segments :: "Label \<Rightarrow> error + (int \<times> Label)" where
  "fill_segments self = fill_loop self 0 (dataTypes (trk234_info self))"

text \<open>
  Two abbreviations for the statements below: the record length the loop reads from a
  sub-template, when line 191 succeeds on it, and the sub-template after lines 194 to 199.
\<close>

definition record_length :: "XML_Template \<Rightarrow> int option" where
  "record_length tt =
     (case read record_length_key ''first'' tt of
        Inl e \<Rightarrow> None
      | Inr r \<Rightarrow> (case py_int r of Inl e \<Rightarrow> None | Inr n \<Rightarrow> Some n))"

definition filled :: "int \<Rightarrow> int \<Rightarrow> XML_Template \<Rightarrow> XML_Template" where
  "filled byte_location n_sfdus tt =
     replace ''<groups>'' ''0'' True
       (replace ''<records>'' (py_str n_sfdus) True
          (replace offset_key (py_str byte_location) False tt))"

section \<open>Facts about the string primitives\<close>

lemma slice_prefix: "py_slice None (Some (int k)) xs = take k xs"
  by (cases "k \<le> length xs") (simp_all add: py_slice_def py_index_def min_def)

lemma slice_suffix: "py_slice (Some (int k)) None xs = drop k xs"
  by (cases "k \<le> length xs") (simp_all add: py_slice_def py_index_def min_def)

lemma slice_middle: "py_slice (Some (int a)) (Some (int b)) xs = take (b - a) (drop a xs)"
  by (cases "a \<le> length xs"; cases "b \<le> length xs") (simp_all add: py_slice_def py_index_def min_def)

lemma py_find_absent: "c \<notin> set s \<Longrightarrow> py_find c s = - 1"
  by (induction s) auto

lemma py_rfind_absent: "c \<notin> set s \<Longrightarrow> py_rfind c s = - 1"
  by (induction s) auto

lemma py_find_first: "c \<notin> set p \<Longrightarrow> py_find c (p @ c # q) = int (length p)"
  by (induction p) (auto simp: Let_def)

lemma py_rfind_last: "c \<notin> set q \<Longrightarrow> py_rfind c (p @ c # q) = int (length p)"
  by (induction p) (auto simp: Let_def py_rfind_absent)

lemma py_find_nonneg_iff: "0 \<le> py_find c s \<longleftrightarrow> c \<in> set s"
  by (induction s) (auto simp: Let_def)

lemma py_rfind_nonneg_iff: "0 \<le> py_rfind c s \<longleftrightarrow> c \<in> set s"
  by (induction s) (auto simp: Let_def)

lemma slice_prefix': "i = int k \<Longrightarrow> py_slice None (Some i) xs = take k xs"
  by (simp add: slice_prefix)

lemma slice_middle':
  "i = int a \<Longrightarrow> j = int b \<Longrightarrow> py_slice (Some i) (Some j) xs = take (b - a) (drop a xs)"
  by (simp add: slice_middle)

lemma take_drop_nths:
  "b \<le> length xs \<Longrightarrow> take (b - a) (drop a xs) = map ((!) xs) [a..<b]"
proof -
  assume b: "b \<le> length xs"
  have "take (b - a) (drop a (map ((!) xs) [0..<length xs])) =
          map ((!) xs) (take (b - a) [a..<length xs])"
    by (simp add: drop_map take_map)
  also have "take (b - a) [a..<length xs] = [a..<b]"
  proof (cases "a \<le> b")
    case True
    with b have "a + (b - a) \<le> length xs" by simp
    then have "take (b - a) [a..<length xs] = [a..<a + (b - a)]" by (rule take_upt)
    with True show ?thesis by simp
  next
    case False
    then show ?thesis by simp
  qed
  finally show ?thesis by (simp add: map_nth)
qed

lemma slice_last: "xs \<noteq> [] \<Longrightarrow> py_slice (Some (- 1)) None xs = [last xs]"
proof -
  assume ne: "xs \<noteq> []"
  then have "py_index (- 1) (length xs) = length xs - 1"
    by (cases xs) (simp_all add: py_index_def)
  then have "py_slice (Some (- 1)) None xs = drop (length xs - 1) xs"
    by (simp add: py_slice_def)
  also have "\<dots> = [last xs]"
    using ne by (induction xs rule: rev_induct) simp_all
  finally show ?thesis .
qed

section \<open>The rewritten line and the value read from a line\<close>

lemma new_line_parts:
  assumes "CHR ''>'' \<notin> set p" and "CHR ''<'' \<notin> set q"
  shows "new_line v (p @ CHR ''>'' # old @ CHR ''<'' # q) = p @ CHR ''>'' # v @ CHR ''<'' # q"
proof -
  let ?l = "p @ CHR ''>'' # old @ CHR ''<'' # q"
  have f: "py_find CHR ''>'' ?l = int (length p)"
    using assms(1) by (rule py_find_first)
  have "py_rfind CHR ''<'' ((p @ CHR ''>'' # old) @ CHR ''<'' # q) = int (length (p @ CHR ''>'' # old))"
    using assms(2) by (rule py_rfind_last)
  then have r: "py_rfind CHR ''<'' ?l = int (length p + 1 + length old)" by simp
  have "py_slice None (Some (int (length p) + 1)) ?l = take (length p + 1) ?l"
    by (rule slice_prefix') simp
  then have a: "py_slice None (Some (int (length p) + 1)) ?l = p @ [CHR ''>'']" by simp
  have "py_slice (Some (int (length p + 1 + length old))) None ?l = drop (length p + 1 + length old) ?l"
    by (rule slice_suffix)
  then have b: "py_slice (Some (int (length p + 1 + length old))) None ?l = CHR ''<'' # q" by simp
  show ?thesis
    unfolding new_line_def Let_def f r a b by simp
qed

lemma found_value_parts:
  assumes "CHR ''>'' \<notin> set p" and "CHR ''<'' \<notin> set q"
  shows "found_value (p @ CHR ''>'' # old @ CHR ''<'' # q) = old"
proof -
  let ?l = "p @ CHR ''>'' # old @ CHR ''<'' # q"
  have f: "py_find CHR ''>'' ?l = int (length p)"
    using assms(1) by (rule py_find_first)
  have "py_rfind CHR ''<'' ((p @ CHR ''>'' # old) @ CHR ''<'' # q) = int (length (p @ CHR ''>'' # old))"
    using assms(2) by (rule py_rfind_last)
  then have r: "py_rfind CHR ''<'' ?l = int (length p + 1 + length old)" by simp
  have "py_slice (Some (int (length p) + 1)) (Some (int (length p + 1 + length old))) ?l =
          take (length p + 1 + length old - (length p + 1)) (drop (length p + 1) ?l)"
    by (rule slice_middle') simp_all
  then have m: "py_slice (Some (int (length p) + 1)) (Some (int (length p + 1 + length old))) ?l = old"
    by simp
  show ?thesis
    unfolding found_value_def Let_def f r m by (rule refl)
qed

lemma key_value_line_iff:
  "key_value_line l \<longleftrightarrow>
     (\<exists>p old q. l = p @ CHR ''>'' # old @ CHR ''<'' # q \<and> CHR ''>'' \<notin> set p \<and> CHR ''<'' \<notin> set q)"
proof
  assume kv: "key_value_line l"
  then have "CHR ''>'' \<in> set l" by (simp add: key_value_line_def py_find_nonneg_iff)
  then obtain p r where pr: "l = p @ CHR ''>'' # r" "CHR ''>'' \<notin> set p"
    using split_list_first by fastforce
  from kv have "0 \<le> py_rfind CHR ''<'' l" by (simp add: key_value_line_def)
  then have "CHR ''<'' \<in> set l" by (simp add: py_rfind_nonneg_iff)
  then obtain u q where uq: "l = u @ CHR ''<'' # q" "CHR ''<'' \<notin> set q"
    using split_list_last by fastforce
  have "py_find CHR ''>'' l = int (length p)" using pr py_find_first by simp
  moreover have "py_rfind CHR ''<'' l = int (length u)" using uq py_rfind_last by simp
  ultimately have lt: "length p < length u" using kv by (simp add: key_value_line_def)
  from pr uq have e: "p @ CHR ''>'' # r = u @ CHR ''<'' # q" by simp
  then obtain w where "u = p @ w" "w \<noteq> []"
    using lt by (auto simp: append_eq_append_conv2)
  with e obtain old where "u = p @ CHR ''>'' # old"
    by (cases w) auto
  with uq pr show "\<exists>p old q. l = p @ CHR ''>'' # old @ CHR ''<'' # q \<and> CHR ''>'' \<notin> set p \<and> CHR ''<'' \<notin> set q"
    by auto
next
  assume "\<exists>p old q. l = p @ CHR ''>'' # old @ CHR ''<'' # q \<and> CHR ''>'' \<notin> set p \<and> CHR ''<'' \<notin> set q"
  then obtain p old q where l: "l = p @ CHR ''>'' # old @ CHR ''<'' # q"
    and p: "CHR ''>'' \<notin> set p" and q: "CHR ''<'' \<notin> set q" by blast
  have f: "py_find CHR ''>'' l = int (length p)"
    unfolding l using p by (rule py_find_first)
  have "py_rfind CHR ''<'' ((p @ CHR ''>'' # old) @ CHR ''<'' # q) = int (length (p @ CHR ''>'' # old))"
    using q by (rule py_rfind_last)
  then have r: "py_rfind CHR ''<'' l = int (length p + 1 + length old)" by (simp add: l)
  show "key_value_line l" by (simp add: key_value_line_def f r)
qed

lemma head_part:
  "(CHR ''>'' \<notin> set l \<and> py_slice None (Some (py_find CHR ''>'' l + 1)) l = []) \<or>
   (\<exists>p r. l = p @ CHR ''>'' # r \<and> CHR ''>'' \<notin> set p \<and>
       py_slice None (Some (py_find CHR ''>'' l + 1)) l = p @ [CHR ''>''])"
proof (cases "CHR ''>'' \<in> set l")
  case False
  then have "py_find CHR ''>'' l + 1 = int 0" by (simp add: py_find_absent)
  then have "py_slice None (Some (py_find CHR ''>'' l + 1)) l = take 0 l" by (rule slice_prefix')
  with False show ?thesis by simp
next
  case True
  then obtain p r where l: "l = p @ CHR ''>'' # r" and p: "CHR ''>'' \<notin> set p"
    using split_list_first by fastforce
  have "py_find CHR ''>'' l + 1 = int (length p + 1)"
    unfolding l using py_find_first [OF p] by simp
  then have "py_slice None (Some (py_find CHR ''>'' l + 1)) l = take (length p + 1) l"
    by (rule slice_prefix')
  also have "\<dots> = p @ [CHR ''>'']" by (simp add: l)
  finally show ?thesis using l p by blast
qed

lemma tail_part:
  assumes "l \<noteq> []"
  shows "(CHR ''<'' \<notin> set l \<and> py_slice (Some (py_rfind CHR ''<'' l)) None l = [last l]) \<or>
   (\<exists>u q. l = u @ CHR ''<'' # q \<and> CHR ''<'' \<notin> set q \<and>
       py_slice (Some (py_rfind CHR ''<'' l)) None l = CHR ''<'' # q)"
proof (cases "CHR ''<'' \<in> set l")
  case False
  then show ?thesis using slice_last [OF assms] by (simp add: py_rfind_absent)
next
  case True
  then obtain u q where l: "l = u @ CHR ''<'' # q" and q: "CHR ''<'' \<notin> set q"
    using split_list_last by fastforce
  have "py_rfind CHR ''<'' l = int (length u)"
    unfolding l using q by (rule py_rfind_last)
  then have "py_slice (Some (py_rfind CHR ''<'' l)) None l = drop (length u) l"
    by (simp add: slice_suffix)
  also have "\<dots> = CHR ''<'' # q" by (simp add: l)
  finally show ?thesis using l q by blast
qed

lemma found_value_sandwich:
  assumes f: "py_find CHR ''>'' (A @ v @ B) + 1 = int (length A)"
    and r: "py_index (py_rfind CHR ''<'' (A @ v @ B)) (length (A @ v @ B)) = length A + length v"
  shows "found_value (A @ v @ B) = v"
proof -
  have "py_index (int (length A)) (length (A @ v @ B)) = length A"
    by (simp add: py_index_def)
  then show ?thesis
    unfolding found_value_def Let_def py_slice_def f using r by simp
qed

lemma find_after_head:
  assumes "(A = [] \<and> CHR ''>'' \<notin> set (v @ B)) \<or> (\<exists>p. A = p @ [CHR ''>''] \<and> CHR ''>'' \<notin> set p)"
  shows "py_find CHR ''>'' (A @ v @ B) + 1 = int (length A)"
  using assms
proof
  assume "A = [] \<and> CHR ''>'' \<notin> set (v @ B)"
  then show ?thesis using py_find_absent [of "CHR ''>''" "v @ B"] by simp
next
  assume "\<exists>p. A = p @ [CHR ''>''] \<and> CHR ''>'' \<notin> set p"
  then obtain p where A: "A = p @ [CHR ''>'']" and p: "CHR ''>'' \<notin> set p" by blast
  have "py_find CHR ''>'' (p @ CHR ''>'' # (v @ B)) = int (length p)"
    using p by (rule py_find_first)
  then show ?thesis by (simp add: A)
qed

lemma rfind_before_tail:
  assumes "(\<exists>c. B = [c] \<and> CHR ''<'' \<notin> set (A @ v @ B)) \<or> (\<exists>q. B = CHR ''<'' # q \<and> CHR ''<'' \<notin> set q)"
  shows "py_index (py_rfind CHR ''<'' (A @ v @ B)) (length (A @ v @ B)) = length A + length v"
  using assms
proof
  assume "\<exists>c. B = [c] \<and> CHR ''<'' \<notin> set (A @ v @ B)"
  then obtain c where B: "B = [c]" and no: "CHR ''<'' \<notin> set (A @ v @ B)" by blast
  have "py_rfind CHR ''<'' (A @ v @ B) = - 1" using no by (rule py_rfind_absent)
  then show ?thesis by (simp add: B py_index_def)
next
  assume "\<exists>q. B = CHR ''<'' # q \<and> CHR ''<'' \<notin> set q"
  then obtain q where B: "B = CHR ''<'' # q" and q: "CHR ''<'' \<notin> set q" by blast
  have "py_rfind CHR ''<'' ((A @ v) @ CHR ''<'' # q) = int (length (A @ v))"
    using q by (rule py_rfind_last)
  then show ?thesis by (simp add: B py_index_def)
qed

lemma found_value_new_line:
  assumes ne: "l \<noteq> []" and gt: "CHR ''>'' \<notin> set v" and lt: "CHR ''<'' \<notin> set v"
  shows "found_value (new_line v l) = v"
proof -
  define A where "A = py_slice None (Some (py_find CHR ''>'' l + 1)) l"
  define B where "B = py_slice (Some (py_rfind CHR ''<'' l)) None l"
  have nl: "new_line v l = A @ v @ B" by (simp add: new_line_def A_def B_def)
  have subA: "set A \<subseteq> set l" unfolding A_def py_slice_def Let_def
    by (meson set_take_subset set_drop_subset subset_trans)
  have subB: "set B \<subseteq> set l" unfolding B_def py_slice_def Let_def
    by (meson set_take_subset set_drop_subset subset_trans)
  have hA: "(A = [] \<and> CHR ''>'' \<notin> set l) \<or> (\<exists>p. A = p @ [CHR ''>''] \<and> CHR ''>'' \<notin> set p)"
    using head_part [of l] unfolding A_def by blast
  have hB: "(\<exists>c. B = [c] \<and> CHR ''<'' \<notin> set l) \<or> (\<exists>q. B = CHR ''<'' # q \<and> CHR ''<'' \<notin> set q)"
    using tail_part [OF ne] unfolding B_def by blast
  from hA subB gt
  have "(A = [] \<and> CHR ''>'' \<notin> set (v @ B)) \<or> (\<exists>p. A = p @ [CHR ''>''] \<and> CHR ''>'' \<notin> set p)"
    by auto
  then have f: "py_find CHR ''>'' (A @ v @ B) + 1 = int (length A)" by (rule find_after_head)
  from hB subA subB lt
  have "(\<exists>c. B = [c] \<and> CHR ''<'' \<notin> set (A @ v @ B)) \<or> (\<exists>q. B = CHR ''<'' # q \<and> CHR ''<'' \<notin> set q)"
    by auto
  then have r: "py_index (py_rfind CHR ''<'' (A @ v @ B)) (length (A @ v @ B)) = length A + length v"
    by (rule rfind_before_tail)
  show ?thesis unfolding nl using f r by (rule found_value_sandwich)
qed

lemma new_line_both:
  assumes "CHR ''>'' \<in> set l" and "CHR ''<'' \<in> set l"
  shows "\<exists>p q. new_line v l = p @ CHR ''>'' # v @ CHR ''<'' # q \<and>
           CHR ''>'' \<notin> set p \<and> CHR ''<'' \<notin> set q"
proof -
  from assms(2) have ne: "l \<noteq> []" by auto
  from head_part [of l] assms(1) obtain p where
    A: "py_slice None (Some (py_find CHR ''>'' l + 1)) l = p @ [CHR ''>'']" and p: "CHR ''>'' \<notin> set p"
    by blast
  from tail_part [OF ne] assms(2) obtain q where
    B: "py_slice (Some (py_rfind CHR ''<'' l)) None l = CHR ''<'' # q" and q: "CHR ''<'' \<notin> set q"
    by blast
  have "new_line v l = p @ CHR ''>'' # v @ CHR ''<'' # q"
    by (simp add: new_line_def A B)
  with p q show ?thesis by blast
qed

lemma new_line_idem:
  assumes "CHR ''>'' \<in> set l" and "CHR ''<'' \<in> set l"
  shows "new_line v (new_line v l) = new_line v l"
proof -
  from new_line_both [OF assms] obtain p q where
    nl: "new_line v l = p @ CHR ''>'' # v @ CHR ''<'' # q" and p: "CHR ''>'' \<notin> set p"
    and q: "CHR ''<'' \<notin> set q" by blast
  show ?thesis unfolding nl using p q by (rule new_line_parts)
qed

lemma found_value_between:
  assumes l1: "l = p @ CHR ''>'' # r" and p: "CHR ''>'' \<notin> set p"
    and l2: "l = u @ CHR ''<'' # q" and q: "CHR ''<'' \<notin> set q"
  shows "found_value l = map ((!) l) [Suc (length p)..<length u]"
proof -
  have f: "py_find CHR ''>'' l = int (length p)"
    unfolding l1 using p by (rule py_find_first)
  have r: "py_rfind CHR ''<'' l = int (length u)"
    unfolding l2 using q by (rule py_rfind_last)
  have "py_slice (Some (int (length p) + 1)) (Some (int (length u))) l =
          take (length u - Suc (length p)) (drop (Suc (length p)) l)"
    by (rule slice_middle') simp_all
  also have "\<dots> = map ((!) l) [Suc (length p)..<length u]"
    by (rule take_drop_nths) (simp add: l2)
  finally show ?thesis unfolding found_value_def Let_def f r .
qed

section \<open>Properties of replace\<close>

lemma length_replace_loop:
  "length (replace_loop m v one d) = length d"
  by (induction d) auto

text \<open>
  Claim C10. \<open>replace\<close> never changes the number of lines of the document, for
  every marker, every replacement value and both settings of \<open>replace_one\<close>,
  whatever the matching lines look like.
\<close>

theorem replace_keeps_line_count:
  "length (data (replace xml_string replace_string replace_one t)) = length (data t)"
  by (simp add: replace_def length_replace_loop)

lemma replace_loop_nth:
  "i < length d \<Longrightarrow>
   replace_loop m v one d ! i =
     (if str_in m (d ! i) \<and> (one \<longrightarrow> (\<forall>j<i. \<not> str_in m (d ! j)))
      then new_line v (d ! i) else d ! i)"
proof (induction d arbitrary: i)
  case Nil
  then show ?case by simp
next
  case (Cons l d)
  show ?case
  proof (cases i)
    case 0
    then show ?thesis by simp
  next
    case (Suc k)
    with Cons.prems have k: "k < length d" by simp
    show ?thesis
    proof (cases "str_in m l")
      case True
      then show ?thesis using Suc Cons.IH [OF k] by (auto simp: less_Suc_eq_0_disj)
    next
      case False
      then show ?thesis using Suc Cons.IH [OF k] by (auto simp: less_Suc_eq_0_disj)
    qed
  qed
qed

lemma replace_loop_no_match:
  "\<forall>l\<in>set d. \<not> str_in m l \<Longrightarrow> replace_loop m v one d = d"
  by (induction d) simp_all

lemma replace_loop_first_match:
  assumes "\<forall>x\<in>set xs. \<not> str_in m x" and "str_in m l"
  shows "replace_loop m v one (xs @ l # ys) =
           xs @ new_line v l # (if one then ys else replace_loop m v one ys)"
  using assms by (induction xs) simp_all

lemma replace_loop_idem:
  assumes "\<forall>l\<in>set d. str_in m l \<longrightarrow> CHR ''>'' \<in> set l \<and> CHR ''<'' \<in> set l"
  shows "replace_loop m v False (replace_loop m v False d) = replace_loop m v False d"
  using assms
proof (induction d)
  case Nil
  then show ?case by simp
next
  case (Cons l d)
  then have IH: "replace_loop m v False (replace_loop m v False d) = replace_loop m v False d"
    by simp
  show ?case
  proof (cases "str_in m l")
    case False
    then show ?thesis using IH by simp
  next
    case True
    with Cons.prems have "CHR ''>'' \<in> set l" "CHR ''<'' \<in> set l" by simp_all
    then have "new_line v (new_line v l) = new_line v l" by (rule new_line_idem)
    with True IH show ?thesis by simp
  qed
qed

text \<open>
  Claim C1, as amended. Take a document in which every line holding the marker is a
  key-value line (its first \<open>>\<close> stands before its last \<open><\<close>). Then \<open>replace\<close>
  keeps the number of lines; every line holding the marker (with \<open>replace_one\<close>: only
  the first of them in document order) splits as \<open>p > old < q\<close>, where \<open>p\<close> has no
  \<open>>\<close> and \<open>q\<close> has no \<open><\<close>, and becomes \<open>p > v < q\<close>: the value between the
  first \<open>>\<close> and the last \<open><\<close> is the new one and every other character stays;
  every other line stays as it is. With no line holding the marker the document is
  unchanged, whatever its lines are.
\<close>

theorem replace_rewrites_value:
  assumes wf: "\<forall>l\<in>set (data t). str_in m l \<longrightarrow> key_value_line l"
  shows "length (data (replace m v one t)) = length (data t) \<and>
    (\<forall>i<length (data t).
       if str_in m (data t ! i) \<and> (one \<longrightarrow> (\<forall>j<i. \<not> str_in m (data t ! j)))
       then \<exists>p old q. data t ! i = p @ CHR ''>'' # old @ CHR ''<'' # q \<and>
              CHR ''>'' \<notin> set p \<and> CHR ''<'' \<notin> set q \<and>
              data (replace m v one t) ! i = p @ CHR ''>'' # v @ CHR ''<'' # q
       else data (replace m v one t) ! i = data t ! i) \<and>
    ((\<forall>l\<in>set (data t). \<not> str_in m l) \<longrightarrow> replace m v one t = t)"
proof (intro conjI allI impI)
  show "length (data (replace m v one t)) = length (data t)"
    by (simp add: replace_def length_replace_loop)
next
  fix i assume i: "i < length (data t)"
  let ?hit = "str_in m (data t ! i) \<and> (one \<longrightarrow> (\<forall>j<i. \<not> str_in m (data t ! j)))"
  have nth: "data (replace m v one t) ! i = (if ?hit then new_line v (data t ! i) else data t ! i)"
    using replace_loop_nth [OF i] by (simp add: replace_def)
  show "if ?hit
       then \<exists>p old q. data t ! i = p @ CHR ''>'' # old @ CHR ''<'' # q \<and>
              CHR ''>'' \<notin> set p \<and> CHR ''<'' \<notin> set q \<and>
              data (replace m v one t) ! i = p @ CHR ''>'' # v @ CHR ''<'' # q
       else data (replace m v one t) ! i = data t ! i"
  proof (cases ?hit)
    case False
    with nth have "data (replace m v one t) ! i = data t ! i" by simp
    then show ?thesis by (subst if_not_P [OF False])
  next
    case True
    then have "str_in m (data t ! i)" by simp
    moreover have "data t ! i \<in> set (data t)" using i by simp
    ultimately have "key_value_line (data t ! i)" using wf by blast
    then obtain p old q where l: "data t ! i = p @ CHR ''>'' # old @ CHR ''<'' # q"
      and p: "CHR ''>'' \<notin> set p" and q: "CHR ''<'' \<notin> set q"
      unfolding key_value_line_iff by blast
    have "new_line v (data t ! i) = p @ CHR ''>'' # v @ CHR ''<'' # q"
      unfolding l using p q by (rule new_line_parts)
    with nth True have "data (replace m v one t) ! i = p @ CHR ''>'' # v @ CHR ''<'' # q"
      by simp
    with l p q have "\<exists>p old q. data t ! i = p @ CHR ''>'' # old @ CHR ''<'' # q \<and>
              CHR ''>'' \<notin> set p \<and> CHR ''<'' \<notin> set q \<and>
              data (replace m v one t) ! i = p @ CHR ''>'' # v @ CHR ''<'' # q"
      by blast
    then show ?thesis by (subst if_P [OF True])
  qed
next
  assume "\<forall>l\<in>set (data t). \<not> str_in m l"
  then show "replace m v one t = t"
    by (simp add: replace_def replace_loop_no_match)
qed

text \<open>
  The hypothesis of C1 holds for a template with a \<open><records>\<close> line, and the theorem
  applies to it.
\<close>

theorem replace_rewrites_value_witness:
  "key_value_line ''<records>0</records>'' \<and> str_in ''<records>'' ''<records>0</records>'' \<and>
   length (data (replace ''<records>'' ''42'' True
       \<lparr>data = [''<a>'', ''<records>0</records>'']\<rparr>)) = 2 \<and>
   data (replace ''<records>'' ''42'' True
       \<lparr>data = [''<a>'', ''<records>0</records>'']\<rparr>) ! 1 = ''<records>42</records>''"
proof -
  let ?t = "\<lparr>data = [''<a>'', ''<records>0</records>'']\<rparr>"
  have kv: "key_value_line ''<records>0</records>''" by (simp add: key_value_line_def)
  have no: "\<not> str_in ''<records>'' ''<a>''" by simp
  have yes: "str_in ''<records>'' ''<records>0</records>''" by simp
  have wf: "\<forall>l\<in>set (data ?t). str_in ''<records>'' l \<longrightarrow> key_value_line l"
    using kv no by simp
  from replace_rewrites_value [OF wf, of "''42''" True]
  have "length (data (replace ''<records>'' ''42'' True ?t)) = length (data ?t)" by (rule conjunct1)
  then have len: "length (data (replace ''<records>'' ''42'' True ?t)) = 2" by simp
  have "data (replace ''<records>'' ''42'' True ?t) ! 1 = ''<records>42</records>''"
    by (simp add: replace_def new_line_def py_slice_def py_index_def)
  with kv yes len show ?thesis by blast
qed

text \<open>
  Claim C1 as first stated fails on a line without delimiters: \<open>find\<close> and \<open>rfind\<close>
  both answer \<open>-1\<close>, the line \<open>abc\<close> holding the marker \<open>b\<close> becomes \<open>Vc\<close>, and
  the characters \<open>a\<close> and \<open>b\<close> are lost.
\<close>

theorem replace_loses_characters:
  "str_in ''b'' ''abc'' \<and> replace ''b'' ''V'' False \<lparr>data = [''abc'']\<rparr> = \<lparr>data = [''Vc'']\<rparr>"
  by (simp add: replace_def new_line_def py_slice_def py_index_def)

text \<open>
  Claim C9, as amended. When every line holding the marker has both a \<open>>\<close> and a
  \<open><\<close>, calling \<open>replace(M, V)\<close> twice with the same value gives the document that
  one call gives, for every value \<open>V\<close>.
\<close>

theorem replace_twice:
  assumes "\<forall>l\<in>set (data t). str_in m l \<longrightarrow> CHR ''>'' \<in> set l \<and> CHR ''<'' \<in> set l"
  shows "replace m v False (replace m v False t) = replace m v False t"
  using replace_loop_idem [OF assms] by (simp add: replace_def)

text \<open>
  The hypothesis of C9 holds for a document with one key-value line; the value even holds
  delimiters of its own.
\<close>

theorem replace_twice_witness:
  "replace ''<a>'' ''<7>'' False (replace ''<a>'' ''<7>'' False \<lparr>data = [''<a>1</a>'', ''x'']\<rparr>)
     = \<lparr>data = [''<a><7></a>'', ''x'']\<rparr>"
proof -
  let ?t = "\<lparr>data = [''<a>1</a>'', ''x'']\<rparr>"
  have "\<forall>l\<in>set (data ?t). str_in ''<a>'' l \<longrightarrow> CHR ''>'' \<in> set l \<and> CHR ''<'' \<in> set l"
    by simp
  then have "replace ''<a>'' ''<7>'' False (replace ''<a>'' ''<7>'' False ?t)
           = replace ''<a>'' ''<7>'' False ?t"
    by (rule replace_twice)
  also have "\<dots> = \<lparr>data = [''<a><7></a>'', ''x'']\<rparr>"
    by (simp add: replace_def new_line_def py_slice_def py_index_def)
  finally show ?thesis .
qed

text \<open>
  Claim C9 as first stated fails on a line without \<open>>\<close> when the value holds one: the
  first call turns \<open>abc\<close> into \<open>>c\<close>, and the second call, which now finds a
  \<open>>\<close>, turns it into \<open>>>c\<close>.
\<close>

theorem replace_twice_differs:
  "replace ''c'' ''>'' False \<lparr>data = [''abc'']\<rparr> = \<lparr>data = [''>c'']\<rparr> \<and>
   replace ''c'' ''>'' False (replace ''c'' ''>'' False \<lparr>data = [''abc'']\<rparr>) = \<lparr>data = [''>>c'']\<rparr>"
  by (simp add: replace_def new_line_def py_slice_def py_index_def)

section \<open>Properties of read\<close>

lemma read_loop_first:
  "read_loop m ''first'' val d =
     (case filter (str_in m) d of [] \<Rightarrow> Done val | l # ls \<Rightarrow> Return (found_value l))"
  by (induction d) simp_all

lemma read_loop_collect:
  "st \<noteq> ''first'' \<Longrightarrow>
   read_loop m st val d = Done (val @ map found_value (filter (str_in m) d))"
  by (induction d arbitrary: val) simp_all

lemma str_in_iff_sublist: "str_in sub s \<longleftrightarrow> sublist sub s"
proof (induction s)
  case Nil
  then show ?case by simp
next
  case (Cons c cs)
  then show ?case by (simp add: sublist_Cons_right)
qed

lemma filter_str_in: "filter (str_in m) d = filter (sublist m) d"
  by (rule filter_cong) (simp_all add: str_in_iff_sublist)

lemma found_value_positions:
  assumes gt: "CHR ''>'' \<in> set l" and lt: "CHR ''<'' \<in> set l"
  shows "\<exists>a b. a < length l \<and> l ! a = CHR ''>'' \<and> (\<forall>j<a. l ! j \<noteq> CHR ''>'') \<and>
           b < length l \<and> l ! b = CHR ''<'' \<and>
           (\<forall>j. b < j \<and> j < length l \<longrightarrow> l ! j \<noteq> CHR ''<'') \<and>
           found_value l = map ((!) l) [Suc a..<b]"
proof -
  from gt obtain p r where l1: "l = p @ CHR ''>'' # r" and p: "CHR ''>'' \<notin> set p"
    using split_list_first by fastforce
  from lt obtain u q where l2: "l = u @ CHR ''<'' # q" and q: "CHR ''<'' \<notin> set q"
    using split_list_last by fastforce
  have a1: "length p < length l" by (simp add: l1)
  have a2: "l ! length p = CHR ''>''" by (simp add: l1)
  have a3: "\<forall>j<length p. l ! j \<noteq> CHR ''>''"
    using p by (auto simp: l1 nth_append dest: nth_mem)
  have b1: "length u < length l" by (simp add: l2)
  have b2: "l ! length u = CHR ''<''" by (simp add: l2)
  have b3: "\<forall>j. length u < j \<and> j < length l \<longrightarrow> l ! j \<noteq> CHR ''<''"
  proof (intro allI impI)
    fix j assume j: "length u < j \<and> j < length l"
    then obtain k where k: "j = Suc (length u + k)" using less_imp_Suc_add by blast
    have "l ! j = (u @ CHR ''<'' # q) ! (length u + Suc k)" by (simp add: k l2 [symmetric])
    also have "\<dots> = (CHR ''<'' # q) ! Suc k" by (rule nth_append_length_plus)
    finally have "l ! j = q ! k" by simp
    moreover from j have "k < length q" by (simp add: k l2)
    ultimately show "l ! j \<noteq> CHR ''<''" using q by (metis nth_mem)
  qed
  have fv: "found_value l = map ((!) l) [Suc (length p)..<length u]"
    by (rule found_value_between [OF l1 p l2 q])
  from a1 a2 a3 b1 b2 b3 fv show ?thesis by blast
qed

lemma read_all_values:
  "read m ''all'' t = Inr (StrList (map found_value (filter (sublist m) (data t))))"
  by (simp add: read_def read_loop_collect filter_str_in)

lemma read_last_values:
  "read m ''last'' t =
     (if map found_value (filter (sublist m) (data t)) = [] then Inl IndexError
      else Inr (Str (last (map found_value (filter (sublist m) (data t))))))"
  by (simp add: read_def read_loop_collect filter_str_in)

text \<open>
  Claim C7, as amended. Take a document in which every line holding the marker has both a
  \<open>>\<close> and a \<open><\<close>. The values \<open>read\<close> collects are, in document order and one
  for each line holding the marker, the characters of the line at the positions strictly
  between its first \<open>>\<close> and its last \<open><\<close>. With search type \<open>'all'\<close> the result
  is the list of these values, the empty list when no line holds the marker. With search
  type \<open>'last'\<close> the result is the last of them, and when no line holds the marker,
  indexing the empty list raises \<open>IndexError\<close> and nothing is returned. Holding the
  marker is stated with \<open>sublist\<close> of the library, not with the model's own test.
\<close>

theorem read_last_and_all:
  assumes kv: "\<forall>l\<in>set (data t). sublist m l \<longrightarrow> CHR ''>'' \<in> set l \<and> CHR ''<'' \<in> set l"
  shows "(\<exists>vals.
      length vals = length (filter (sublist m) (data t)) \<and>
      (\<forall>i<length vals.
         let l = filter (sublist m) (data t) ! i in
         \<exists>a b. a < length l \<and> l ! a = CHR ''>'' \<and> (\<forall>j<a. l ! j \<noteq> CHR ''>'') \<and>
               b < length l \<and> l ! b = CHR ''<'' \<and>
               (\<forall>j. b < j \<and> j < length l \<longrightarrow> l ! j \<noteq> CHR ''<'') \<and>
               vals ! i = map ((!) l) [Suc a..<b]) \<and>
      read m ''all'' t = Inr (StrList vals) \<and>
      read m ''last'' t = (if vals = [] then Inl IndexError else Inr (Str (last vals))))
    \<and> ((\<forall>l\<in>set (data t). \<not> sublist m l) \<longrightarrow>
          read m ''last'' t = Inl IndexError \<and> read m ''all'' t = Inr (StrList []))"
proof (rule conjI)
  let ?ls = "filter (sublist m) (data t)"
  let ?vals = "map found_value ?ls"
  have len: "length ?vals = length ?ls" by simp
  have each: "\<forall>i<length ?vals.
         let l = ?ls ! i in
         \<exists>a b. a < length l \<and> l ! a = CHR ''>'' \<and> (\<forall>j<a. l ! j \<noteq> CHR ''>'') \<and>
               b < length l \<and> l ! b = CHR ''<'' \<and>
               (\<forall>j. b < j \<and> j < length l \<longrightarrow> l ! j \<noteq> CHR ''<'') \<and>
               ?vals ! i = map ((!) l) [Suc a..<b]"
  proof (intro allI impI)
    fix i assume i: "i < length ?vals"
    then have "i < length ?ls" by simp
    then have "?ls ! i \<in> set ?ls" by (rule nth_mem)
    then have "?ls ! i \<in> {x \<in> set (data t). sublist m x}" by (simp only: set_filter)
    then have "?ls ! i \<in> set (data t)" and "sublist m (?ls ! i)" by blast+
    with kv have gt: "CHR ''>'' \<in> set (?ls ! i)" and lt: "CHR ''<'' \<in> set (?ls ! i)" by blast+
    from i have "?vals ! i = found_value (?ls ! i)" by simp
    with found_value_positions [OF gt lt]
    show "let l = ?ls ! i in
         \<exists>a b. a < length l \<and> l ! a = CHR ''>'' \<and> (\<forall>j<a. l ! j \<noteq> CHR ''>'') \<and>
               b < length l \<and> l ! b = CHR ''<'' \<and>
               (\<forall>j. b < j \<and> j < length l \<longrightarrow> l ! j \<noteq> CHR ''<'') \<and>
               ?vals ! i = map ((!) l) [Suc a..<b]"
      unfolding Let_def by simp
  qed
  from len each read_all_values [of m t] read_last_values [of m t]
  show "\<exists>vals.
      length vals = length ?ls \<and>
      (\<forall>i<length vals.
         let l = ?ls ! i in
         \<exists>a b. a < length l \<and> l ! a = CHR ''>'' \<and> (\<forall>j<a. l ! j \<noteq> CHR ''>'') \<and>
               b < length l \<and> l ! b = CHR ''<'' \<and>
               (\<forall>j. b < j \<and> j < length l \<longrightarrow> l ! j \<noteq> CHR ''<'') \<and>
               vals ! i = map ((!) l) [Suc a..<b]) \<and>
      read m ''all'' t = Inr (StrList vals) \<and>
      read m ''last'' t = (if vals = [] then Inl IndexError else Inr (Str (last vals)))"
    by (intro exI [of _ ?vals] conjI)
next
  show "(\<forall>l\<in>set (data t). \<not> sublist m l) \<longrightarrow>
          read m ''last'' t = Inl IndexError \<and> read m ''all'' t = Inr (StrList [])"
  proof
    assume "\<forall>l\<in>set (data t). \<not> sublist m l"
    then have "filter (sublist m) (data t) = []" by (simp add: filter_empty_conv)
    then show "read m ''last'' t = Inl IndexError \<and> read m ''all'' t = Inr (StrList [])"
      by (simp add: read_all_values read_last_values)
  qed
qed

text \<open>
  The hypothesis of C7 at a document with two lines holding the marker and one line
  without it: the values are read in document order.
\<close>

theorem read_last_and_all_witness:
  "sublist ''<a>'' ''<a>1</a>'' \<and> sublist ''<a>'' ''<a>22</a>'' \<and> \<not> sublist ''<a>'' ''x'' \<and>
   read ''<a>'' ''all'' \<lparr>data = [''<a>1</a>'', ''x'', ''<a>22</a>'']\<rparr> = Inr (StrList [''1'', ''22'']) \<and>
   read ''<a>'' ''last'' \<lparr>data = [''<a>1</a>'', ''x'', ''<a>22</a>'']\<rparr> = Inr (Str ''22'')"
proof -
  let ?t = "\<lparr>data = [''<a>1</a>'', ''x'', ''<a>22</a>'']\<rparr>"
  have s1: "sublist ''<a>'' ''<a>1</a>''" and s2: "sublist ''<a>'' ''<a>22</a>''"
    and s3: "\<not> sublist ''<a>'' ''x''"
    by (simp_all add: str_in_iff_sublist [symmetric])
  have kv: "\<forall>l\<in>set (data ?t). sublist ''<a>'' l \<longrightarrow> CHR ''>'' \<in> set l \<and> CHR ''<'' \<in> set l"
    using s3 by simp
  from read_last_and_all [OF kv] obtain vals where
    all: "read ''<a>'' ''all'' ?t = Inr (StrList vals)"
    and last: "read ''<a>'' ''last'' ?t = (if vals = [] then Inl IndexError else Inr (Str (last vals)))"
    by blast
  have ev: "read ''<a>'' ''all'' ?t = Inr (StrList [''1'', ''22''])"
    by (simp add: read_def found_value_def py_slice_def py_index_def)
  with all have "vals = [''1'', ''22'']" by simp
  with last have "read ''<a>'' ''last'' ?t = Inr (Str ''22'')" by simp
  with s1 s2 s3 ev show ?thesis by blast
qed

text \<open>
  Claim C7 as first stated fails on a line without delimiters: the line \<open>abc\<close> has no
  \<open>>\<close> and no \<open><\<close>, so it carries no value, and both search types still return
  the line without its last character.
\<close>

theorem read_last_without_delimiters:
  "CHR ''>'' \<notin> set ''abc'' \<and> CHR ''<'' \<notin> set ''abc'' \<and>
   read ''b'' ''last'' \<lparr>data = [''abc'']\<rparr> = Inr (Str ''ab'') \<and>
   read ''b'' ''all'' \<lparr>data = [''abc'']\<rparr> = Inr (StrList [''ab''])"
  by (simp add: read_def found_value_def py_slice_def py_index_def)

text \<open>
  Claim C6 asks \<open>read(marker, 'first')\<close> to fail when no line holds the marker. The
  code does not: the loop ends, neither \<open>'all'\<close> nor \<open>'last'\<close> applies, line 152
  builds an \<open>IOError\<close> without raising it, and the method returns \<open>None\<close>.
\<close>

theorem read_first_missing:
  "read ''<b>'' ''first'' \<lparr>data = [''<a>1</a>'', ''<c>2</c>'']\<rparr> = Inr PyNone"
  by (simp add: read_def)

lemma read_first:
  "read m ''first'' t =
     (case filter (str_in m) (data t) of [] \<Rightarrow> Inr PyNone | l # ls \<Rightarrow> Inr (Str (found_value l)))"
  by (simp add: read_def read_loop_first split: list.split)

text \<open>
  Claim C4, as amended. When exactly one line \<open>l\<close> of the document holds the marker
  and \<open>l\<close> has both a \<open>>\<close> and a \<open><\<close>, \<open>read(M, 'first')\<close> returns the characters
  of \<open>l\<close> at the positions strictly between \<open>a\<close>, the position of its first \<open>>\<close>,
  and \<open>b\<close>, the position of its last \<open><\<close> (none when \<open>b\<close> does not come after
  \<open>a\<close>).
\<close>

theorem read_first_between:
  assumes one: "filter (str_in m) (data t) = [l]"
    and gt: "CHR ''>'' \<in> set l" and lt: "CHR ''<'' \<in> set l"
  shows "\<exists>a b. a < length l \<and> l ! a = CHR ''>'' \<and> (\<forall>j<a. l ! j \<noteq> CHR ''>'') \<and>
           b < length l \<and> l ! b = CHR ''<'' \<and> (\<forall>j. b < j \<and> j < length l \<longrightarrow> l ! j \<noteq> CHR ''<'') \<and>
           read m ''first'' t = Inr (Str (map ((!) l) [Suc a..<b]))"
proof -
  from gt obtain p r where l1: "l = p @ CHR ''>'' # r" and p: "CHR ''>'' \<notin> set p"
    using split_list_first by fastforce
  from lt obtain u q where l2: "l = u @ CHR ''<'' # q" and q: "CHR ''<'' \<notin> set q"
    using split_list_last by fastforce
  have a1: "length p < length l" by (simp add: l1)
  have a2: "l ! length p = CHR ''>''" by (simp add: l1)
  have a3: "\<forall>j<length p. l ! j \<noteq> CHR ''>''"
    using p by (auto simp: l1 nth_append dest: nth_mem)
  have b1: "length u < length l" by (simp add: l2)
  have b2: "l ! length u = CHR ''<''" by (simp add: l2)
  have b3: "\<forall>j. length u < j \<and> j < length l \<longrightarrow> l ! j \<noteq> CHR ''<''"
  proof (intro allI impI)
    fix j assume j: "length u < j \<and> j < length l"
    then obtain k where k: "j = Suc (length u + k)" using less_imp_Suc_add by blast
    have "l ! j = (u @ CHR ''<'' # q) ! (length u + Suc k)" by (simp add: k l2 [symmetric])
    also have "\<dots> = (CHR ''<'' # q) ! Suc k" by (rule nth_append_length_plus)
    finally have "l ! j = q ! k" by simp
    moreover from j have "k < length q" by (simp add: k l2)
    ultimately show "l ! j \<noteq> CHR ''<''" using q by (metis nth_mem)
  qed
  have "read m ''first'' t = Inr (Str (found_value l))"
    by (simp add: read_first one)
  then have rd: "read m ''first'' t = Inr (Str (map ((!) l) [Suc (length p)..<length u]))"
    using found_value_between [OF l1 p l2 q] by simp
  from a1 a2 a3 b1 b2 b3 rd show ?thesis by blast
qed

text \<open>
  The hypotheses of C4 hold for a document with one \<open><b>\<close> line, whose value is read.
\<close>

theorem read_first_between_witness:
  "filter (str_in ''<b>'') [''<a>1</a>'', ''<b>xy</b>''] = [''<b>xy</b>''] \<and>
   read ''<b>'' ''first'' \<lparr>data = [''<a>1</a>'', ''<b>xy</b>'']\<rparr> = Inr (Str ''xy'')"
proof -
  let ?t = "\<lparr>data = [''<a>1</a>'', ''<b>xy</b>'']\<rparr>"
  let ?l = "''<b>xy</b>''"
  have one: "filter (str_in ''<b>'') (data ?t) = [?l]" by simp
  have gt: "CHR ''>'' \<in> set ?l" and lt: "CHR ''<'' \<in> set ?l" by simp_all
  from read_first_between [OF one gt lt]
  obtain a b where "read ''<b>'' ''first'' ?t = Inr (Str (map ((!) ?l) [Suc a..<b]))" by blast
  moreover have "read ''<b>'' ''first'' ?t = Inr (Str ''xy'')"
    by (simp add: read_def found_value_def py_slice_def py_index_def)
  ultimately show ?thesis using one by simp
qed

text \<open>
  Claim C4 as first stated fails when the one line holding the marker has no delimiter:
  the line \<open>abc\<close> has no \<open>>\<close> and no \<open><\<close>, and \<open>read\<close> still returns a value,
  the line without its last character.
\<close>

theorem read_without_delimiters:
  "filter (str_in ''b'') [''abc''] = [''abc''] \<and> py_find CHR ''>'' ''abc'' = - 1 \<and>
   py_rfind CHR ''<'' ''abc'' = - 1 \<and>
   read ''b'' ''first'' \<lparr>data = [''abc'']\<rparr> = Inr (Str ''ab'')"
  by (simp add: read_def found_value_def py_slice_def py_index_def)

text \<open>
  Claim C5, as amended. Let \<open>l\<close> be the first line holding the marker, let \<open>l\<close> be
  non-empty, let the value have no \<open>>\<close> and no \<open><\<close>, and let the rewritten line still
  hold the marker. Then \<open>read(M, 'first')\<close> after \<open>replace(M, V)\<close> returns \<open>V\<close>, and
  \<open>replace\<close> leaves every line that does not hold the marker as it is.
\<close>

theorem replace_then_read:
  assumes first: "filter (str_in m) (data t) = l # rest"
    and ne: "l \<noteq> []" and still: "str_in m (new_line v l)"
    and gt: "CHR ''>'' \<notin> set v" and lt: "CHR ''<'' \<notin> set v"
  shows "read m ''first'' (replace m v one t) = Inr (Str v) \<and>
         (\<forall>i<length (data t). \<not> str_in m (data t ! i) \<longrightarrow>
              data (replace m v one t) ! i = data t ! i)"
proof (intro conjI allI impI)
  from first obtain xs ys where d: "data t = xs @ l # ys"
    and none: "\<forall>x\<in>set xs. \<not> str_in m x" and hit: "str_in m l"
    unfolding filter_eq_Cons_iff by blast
  define tl' where "tl' = (if one then ys else replace_loop m v one ys)"
  have "data (replace m v one t) = xs @ new_line v l # tl'"
    using replace_loop_first_match [OF none hit] by (simp add: replace_def d tl'_def)
  moreover have "filter (str_in m) (xs @ new_line v l # tl') = new_line v l # filter (str_in m) tl'"
    using none still by simp
  ultimately have "read m ''first'' (replace m v one t) = Inr (Str (found_value (new_line v l)))"
    by (simp add: read_first)
  then show "read m ''first'' (replace m v one t) = Inr (Str v)"
    using found_value_new_line [OF ne gt lt] by simp
next
  fix i assume i: "i < length (data t)" and no: "\<not> str_in m (data t ! i)"
  show "data (replace m v one t) ! i = data t ! i"
    using replace_loop_nth [OF i, of m v one] no by (simp add: replace_def)
qed

text \<open>
  The hypotheses of C5 hold when the marker is the opening tag of the line: the tag is
  still there after the rewrite.
\<close>

theorem replace_then_read_witness:
  "filter (str_in ''<a>'') [''x'', ''<a>1</a>'', ''<a>2</a>''] = [''<a>1</a>'', ''<a>2</a>''] \<and>
   str_in ''<a>'' (new_line ''42'' ''<a>1</a>'') \<and>
   read ''<a>'' ''first'' (replace ''<a>'' ''42'' False \<lparr>data = [''x'', ''<a>1</a>'', ''<a>2</a>'']\<rparr>)
     = Inr (Str ''42'')"
proof -
  let ?t = "\<lparr>data = [''x'', ''<a>1</a>'', ''<a>2</a>'']\<rparr>"
  have first: "filter (str_in ''<a>'') (data ?t) = ''<a>1</a>'' # [''<a>2</a>'']" by simp
  have ne: "''<a>1</a>'' \<noteq> []" by simp
  have still: "str_in ''<a>'' (new_line ''42'' ''<a>1</a>'')"
    by (simp add: new_line_def py_slice_def py_index_def)
  have gt: "CHR ''>'' \<notin> set ''42''" and lt: "CHR ''<'' \<notin> set ''42''" by simp_all
  from replace_then_read [OF first ne still gt lt, of False]
  have "read ''<a>'' ''first'' (replace ''<a>'' ''42'' False ?t) = Inr (Str ''42'')"
    by (rule conjunct1)
  with first still show ?thesis by simp
qed

text \<open>
  Claim C5 as first stated fails when the marker stands in the value itself: the rewrite
  removes it, no line holds the marker any more, and \<open>read\<close> returns \<open>None\<close>.
\<close>

theorem replace_then_read_marker_lost:
  "str_in ''1'' ''<a>1</a>'' \<and>
   read ''1'' ''first'' (replace ''1'' ''2'' False \<lparr>data = [''<a>1</a>'']\<rparr>) = Inr PyNone"
  by (simp add: read_def replace_def new_line_def py_slice_def py_index_def)

section \<open>Properties of insert\<close>

lemma match_indices_Nil: "match_indices m [] = []"
  by (simp add: match_indices_def)

lemma match_indices_Cons:
  "match_indices m (l # d) =
     (if str_in m l then [0] else []) @ map Suc (match_indices m d)"
proof -
  have "[0..<length (l # d)] = 0 # map Suc [0..<length d]"
    by (simp add: upt_conv_Cons map_Suc_upt del: upt_Suc)
  then show ?thesis
    by (simp add: match_indices_def filter_map comp_def)
qed

lemma match_indices_append:
  "match_indices m (xs @ ys) =
     match_indices m xs @ map (\<lambda>i. i + length xs) (match_indices m ys)"
  by (induction xs) (simp_all add: match_indices_Nil match_indices_Cons comp_def)

lemma match_indices_empty_iff:
  "match_indices m d = [] \<longleftrightarrow> (\<forall>l\<in>set d. \<not> str_in m l)"
  by (induction d) (simp_all add: match_indices_Nil match_indices_Cons)

lemma last_match_index:
  assumes "str_in m l" and "\<forall>y\<in>set ys. \<not> str_in m y"
  shows "match_indices m (xs @ l # ys) \<noteq> [] \<and> last (match_indices m (xs @ l # ys)) = length xs"
proof -
  from assms(2) have "match_indices m ys = []" by (simp add: match_indices_empty_iff)
  with assms(1) show ?thesis
    by (simp add: match_indices_append match_indices_Cons)
qed

lemma first_match_index:
  assumes "str_in m l" and "\<forall>x\<in>set xs. \<not> str_in m x"
  shows "match_indices m (xs @ l # ys) \<noteq> [] \<and> hd (match_indices m (xs @ l # ys)) = length xs"
proof -
  from assms(2) have "match_indices m xs = []" by (simp add: match_indices_empty_iff)
  with assms(1) show ?thesis
    by (simp add: match_indices_append match_indices_Cons)
qed

lemma first_match_split:
  assumes "\<exists>l\<in>set d. P l"
  shows "\<exists>xs l ys. d = xs @ l # ys \<and> P l \<and> (\<forall>x\<in>set xs. \<not> P x)"
  using assms by (metis split_list_first_prop)

lemma last_match_split:
  assumes "\<exists>l\<in>set d. P l"
  shows "\<exists>xs l ys. d = xs @ l # ys \<and> P l \<and> (\<forall>y\<in>set ys. \<not> P y)"
  using assms by (metis split_list_last_prop)

lemma insert_xml_no_match:
  "\<forall>l\<in>set (data t). \<not> str_in m l \<Longrightarrow> insert_xml m c location t = Inr t"
  by (simp add: insert_xml_def match_indices_empty_iff)

lemma insert_xml_first:
  assumes "data t = xs @ l # ys" and "str_in m l" and "\<forall>x\<in>set xs. \<not> str_in m x"
  shows "insert_xml m (PyList c) ''first'' t = Inr (t\<lparr>data := xs @ l # c @ ys\<rparr>)"
  using first_match_index [OF assms(2,3), of ys] assms(1)
  by (simp add: insert_xml_def splice_def)

lemma insert_xml_last:
  assumes "data t = xs @ l # ys" and "str_in m l" and "\<forall>y\<in>set ys. \<not> str_in m y"
  shows "insert_xml m (PyList c) ''last'' t = Inr (t\<lparr>data := xs @ l # c @ ys\<rparr>)"
  using last_match_index [OF assms(2,3), of xs] assms(1)
  by (simp add: insert_xml_def splice_def)

lemma anchor_result:
  assumes d: "data t = xs @ l # ys" and l: "str_in m l"
    and ins: "insert_xml m (PyList c) location t = Inr (t\<lparr>data := xs @ l # c @ ys\<rparr>)"
    and sel: "if location = ''first'' then \<forall>x\<in>set xs. \<not> str_in m x
              else \<forall>y\<in>set ys. \<not> str_in m y"
  shows "\<exists>a t'. a < length (data t) \<and> str_in m (data t ! a) \<and>
              (if location = ''first'' then \<forall>j<a. \<not> str_in m (data t ! j)
               else \<forall>j. a < j \<and> j < length (data t) \<longrightarrow> \<not> str_in m (data t ! j)) \<and>
              insert_xml m (PyList c) location t = Inr t' \<and>
              data t' = take (Suc a) (data t) @ c @ drop (Suc a) (data t) \<and>
              length (data t') = length (data t) + length c \<and>
              (\<forall>i\<le>a. data t' ! i = data t ! i) \<and>
              (\<forall>i<length c. data t' ! (a + 1 + i) = c ! i) \<and>
              (\<forall>i. a < i \<and> i < length (data t) \<longrightarrow> data t' ! (i + length c) = data t ! i)"
proof (rule exI [of _ "length xs"], rule exI [of _ "t\<lparr>data := xs @ l # c @ ys\<rparr>"], intro conjI)
  show "length xs < length (data t)" by (simp add: d)
  show "str_in m (data t ! length xs)" by (simp add: d l)
  show "if location = ''first'' then \<forall>j<length xs. \<not> str_in m (data t ! j)
        else \<forall>j. length xs < j \<and> j < length (data t) \<longrightarrow> \<not> str_in m (data t ! j)"
  proof (cases "location = ''first''")
    case True
    with sel have "\<forall>x\<in>set xs. \<not> str_in m x" by simp
    then have "\<forall>j<length xs. \<not> str_in m (data t ! j)" by (simp add: d nth_append)
    with True show ?thesis by simp
  next
    case False
    with sel have none: "\<forall>y\<in>set ys. \<not> str_in m y" by simp
    have "\<forall>j. length xs < j \<and> j < length (data t) \<longrightarrow> \<not> str_in m (data t ! j)"
    proof (intro allI impI)
      fix j assume j: "length xs < j \<and> j < length (data t)"
      then have "data t ! j = ys ! (j - Suc (length xs))"
        by (simp add: d nth_append nth_Cons')
      moreover from j have "j - Suc (length xs) < length ys" by (auto simp add: d)
      ultimately show "\<not> str_in m (data t ! j)" using none by simp
    qed
    with False show ?thesis by simp
  qed
  show "insert_xml m (PyList c) location t = Inr (t\<lparr>data := xs @ l # c @ ys\<rparr>)" by (rule ins)
  show "data (t\<lparr>data := xs @ l # c @ ys\<rparr>) =
          take (Suc (length xs)) (data t) @ c @ drop (Suc (length xs)) (data t)"
    by (simp add: d)
  show "length (data (t\<lparr>data := xs @ l # c @ ys\<rparr>)) = length (data t) + length c"
    by (simp add: d)
  show "\<forall>i\<le>length xs. data (t\<lparr>data := xs @ l # c @ ys\<rparr>) ! i = data t ! i"
    by (simp add: d nth_append)
  show "\<forall>i<length c. data (t\<lparr>data := xs @ l # c @ ys\<rparr>) ! (length xs + 1 + i) = c ! i"
    by (simp add: nth_append)
  show "\<forall>i. length xs < i \<and> i < length (data t) \<longrightarrow>
          data (t\<lparr>data := xs @ l # c @ ys\<rparr>) ! (i + length c) = data t ! i"
  proof (intro allI impI)
    fix i assume i: "length xs < i \<and> i < length (data t)"
    then obtain k where k: "i = Suc (length xs + k)"
      using less_imp_Suc_add by blast
    have "data t ! i = (xs @ l # ys) ! (length xs + Suc k)" by (simp add: d k)
    also have "\<dots> = (l # ys) ! Suc k" by (rule nth_append_length_plus)
    finally have old: "data t ! i = ys ! k" by simp
    have "i + length c = length xs + Suc (length c + k)" by (simp add: k)
    then have "(xs @ l # c @ ys) ! (i + length c) = (xs @ l # c @ ys) ! (length xs + Suc (length c + k))"
      by (rule arg_cong)
    also have "\<dots> = (l # c @ ys) ! Suc (length c + k)" by (rule nth_append_length_plus)
    also have "\<dots> = (c @ ys) ! (length c + k)" by simp
    also have "\<dots> = ys ! k" by (rule nth_append_length_plus)
    finally have "(xs @ l # c @ ys) ! (i + length c) = ys ! k" .
    with old show "data (t\<lparr>data := xs @ l # c @ ys\<rparr>) ! (i + length c) = data t ! i"
      by simp
  qed
qed

text \<open>
  Claim C3. For location \<open>'first'\<close> or \<open>'last'\<close> and a list \<open>c\<close> of lines: when some
  line holds the marker, there is an anchor \<open>a\<close>, the first (for \<open>'first'\<close>) or the last
  (for \<open>'last'\<close>) index of a line holding the marker, such that \<open>insert\<close> succeeds, the
  document grows by \<open>length c\<close> lines, the lines up to the anchor stay where they are, the
  lines of \<open>c\<close> follow the anchor in their order, and every line after the anchor moves
  down by \<open>length c\<close>. When no line holds the marker the document is unchanged.
\<close>

theorem insert_after_anchor:
  assumes loc: "location = ''first'' \<or> location = ''last''"
  shows "((\<exists>l\<in>set (data t). str_in m l) \<longrightarrow>
           (\<exists>a t'. a < length (data t) \<and> str_in m (data t ! a) \<and>
              (if location = ''first'' then \<forall>j<a. \<not> str_in m (data t ! j)
               else \<forall>j. a < j \<and> j < length (data t) \<longrightarrow> \<not> str_in m (data t ! j)) \<and>
              insert_xml m (PyList c) location t = Inr t' \<and>
              data t' = take (Suc a) (data t) @ c @ drop (Suc a) (data t) \<and>
              length (data t') = length (data t) + length c \<and>
              (\<forall>i\<le>a. data t' ! i = data t ! i) \<and>
              (\<forall>i<length c. data t' ! (a + 1 + i) = c ! i) \<and>
              (\<forall>i. a < i \<and> i < length (data t) \<longrightarrow> data t' ! (i + length c) = data t ! i)))
       \<and> ((\<forall>l\<in>set (data t). \<not> str_in m l) \<longrightarrow> insert_xml m (PyList c) location t = Inr t)"
proof (rule conjI)
  show "(\<forall>l\<in>set (data t). \<not> str_in m l) \<longrightarrow> insert_xml m (PyList c) location t = Inr t"
    by (simp add: insert_xml_no_match)
  show "(\<exists>l\<in>set (data t). str_in m l) \<longrightarrow>
           (\<exists>a t'. a < length (data t) \<and> str_in m (data t ! a) \<and>
              (if location = ''first'' then \<forall>j<a. \<not> str_in m (data t ! j)
               else \<forall>j. a < j \<and> j < length (data t) \<longrightarrow> \<not> str_in m (data t ! j)) \<and>
              insert_xml m (PyList c) location t = Inr t' \<and>
              data t' = take (Suc a) (data t) @ c @ drop (Suc a) (data t) \<and>
              length (data t') = length (data t) + length c \<and>
              (\<forall>i\<le>a. data t' ! i = data t ! i) \<and>
              (\<forall>i<length c. data t' ! (a + 1 + i) = c ! i) \<and>
              (\<forall>i. a < i \<and> i < length (data t) \<longrightarrow> data t' ! (i + length c) = data t ! i))"
  proof
    assume ex: "\<exists>l\<in>set (data t). str_in m l"
    show "\<exists>a t'. a < length (data t) \<and> str_in m (data t ! a) \<and>
              (if location = ''first'' then \<forall>j<a. \<not> str_in m (data t ! j)
               else \<forall>j. a < j \<and> j < length (data t) \<longrightarrow> \<not> str_in m (data t ! j)) \<and>
              insert_xml m (PyList c) location t = Inr t' \<and>
              data t' = take (Suc a) (data t) @ c @ drop (Suc a) (data t) \<and>
              length (data t') = length (data t) + length c \<and>
              (\<forall>i\<le>a. data t' ! i = data t ! i) \<and>
              (\<forall>i<length c. data t' ! (a + 1 + i) = c ! i) \<and>
              (\<forall>i. a < i \<and> i < length (data t) \<longrightarrow> data t' ! (i + length c) = data t ! i)"
    proof (cases "location = ''first''")
      case True
      from ex obtain xs l ys where d: "data t = xs @ l # ys" and l: "str_in m l"
        and none: "\<forall>x\<in>set xs. \<not> str_in m x"
        using first_match_split [of "data t" "str_in m"] by blast
      have ins: "insert_xml m (PyList c) location t = Inr (t\<lparr>data := xs @ l # c @ ys\<rparr>)"
        using insert_xml_first [OF d l none] True by simp
      show ?thesis
        by (rule anchor_result [OF d l ins]) (simp add: True none)
    next
      case False
      with loc have last: "location = ''last''" by simp
      from ex obtain xs l ys where d: "data t = xs @ l # ys" and l: "str_in m l"
        and none: "\<forall>y\<in>set ys. \<not> str_in m y"
        using last_match_split [of "data t" "str_in m"] by blast
      have ins: "insert_xml m (PyList c) location t = Inr (t\<lparr>data := xs @ l # c @ ys\<rparr>)"
        using insert_xml_last [OF d l none] last by simp
      show ?thesis
        by (rule anchor_result [OF d l ins]) (simp add: False none)
    qed
  qed
qed

text \<open>
  The hypothesis of C3 at a document with two lines holding the marker: the anchor is the
  second of them.
\<close>

theorem insert_after_anchor_witness:
  "(\<exists>l\<in>set [''<a>'', ''<b>'', ''<a>'', ''<c>'']. str_in ''<a>'' l) \<and>
   insert_xml ''<a>'' (PyList [''x'', ''y'']) ''last'' \<lparr>data = [''<a>'', ''<b>'', ''<a>'', ''<c>'']\<rparr>
     = Inr \<lparr>data = [''<a>'', ''<b>'', ''<a>'', ''x'', ''y'', ''<c>'']\<rparr>"
proof -
  let ?t = "\<lparr>data = [''<a>'', ''<b>'', ''<a>'', ''<c>'']\<rparr>"
  let ?c = "[''x'', ''y'']"
  have loc: "''last'' = ''first'' \<or> ''last'' = ''last''" by simp
  have ex: "\<exists>l\<in>set (data ?t). str_in ''<a>'' l" by simp
  have m0: "str_in ''<a>'' (data ?t ! 0)" and m1: "\<not> str_in ''<a>'' (data ?t ! 1)"
    and m2: "str_in ''<a>'' (data ?t ! 2)" and m3: "\<not> str_in ''<a>'' (data ?t ! 3)"
    by simp_all
  from insert_after_anchor [OF loc, of ?t "''<a>''" ?c] ex
  obtain a t' where a: "a < length (data ?t)" and hit: "str_in ''<a>'' (data ?t ! a)"
    and later: "\<forall>j. a < j \<and> j < length (data ?t) \<longrightarrow> \<not> str_in ''<a>'' (data ?t ! j)"
    and ins: "insert_xml ''<a>'' (PyList ?c) ''last'' ?t = Inr t'"
    and d': "data t' = take (Suc a) (data ?t) @ ?c @ drop (Suc a) (data ?t)"
    by auto
  from a have "a = 0 \<or> a = 1 \<or> a = 2 \<or> a = 3" by auto
  moreover have "a \<noteq> 1" using hit m1 by auto
  moreover have "a \<noteq> 3" using hit m3 by auto
  moreover have "a \<noteq> 0" using later m2 by auto
  ultimately have "a = 2" by auto
  with d' have "data t' = [''<a>'', ''<b>'', ''<a>'', ''x'', ''y'', ''<c>'']" by simp
  moreover from ins have "t' = ?t\<lparr>data := data t'\<rparr>"
    by (auto simp: insert_xml_def Let_def split: if_splits)
  ultimately have "t' = \<lparr>data = [''<a>'', ''<b>'', ''<a>'', ''x'', ''y'', ''<c>'']\<rparr>" by simp
  with ins ex show ?thesis by simp
qed

text \<open>
  Claim C8, as amended. For a host document ending with the lines \<open><Table_Binary>\<close>,
  \<open></Table_Binary>\<close>, \<open></File>\<close>, inserting with the marker \<open></Table_Binary>\<close> and
  location \<open>'last'\<close> puts the new lines right after the \<open></Table_Binary>\<close> line, that
  is between it and the \<open></File>\<close> line. The branch of lines 205 to 208 takes this
  marker for such a host and gives the same document.
\<close>

theorem insert_after_closing_tag:
  "insert_xml ''</Table_Binary>'' (PyList ls) ''last''
       \<lparr>data = pre @ [''<Table_Binary>'', ''</Table_Binary>'', ''</File>'']\<rparr>
     = Inr \<lparr>data = pre @ [''<Table_Binary>'', ''</Table_Binary>''] @ ls @ [''</File>'']\<rparr>
   \<and> insert_table \<lparr>data = pre @ [''<Table_Binary>'', ''</Table_Binary>'', ''</File>'']\<rparr> \<lparr>data = ls\<rparr>
     = Inr \<lparr>data = pre @ [''<Table_Binary>'', ''</Table_Binary>''] @ ls @ [''</File>'']\<rparr>"
proof -
  let ?t = "\<lparr>data = pre @ [''<Table_Binary>'', ''</Table_Binary>'', ''</File>'']\<rparr>"
  have d: "data ?t = (pre @ [''<Table_Binary>'']) @ ''</Table_Binary>'' # [''</File>'']" by simp
  have hit: "str_in ''</Table_Binary>'' ''</Table_Binary>''" by simp
  have none: "\<forall>y\<in>set [''</File>'']. \<not> str_in ''</Table_Binary>'' y" by simp
  have ins: "insert_xml ''</Table_Binary>'' (PyList ls) ''last'' ?t
         = Inr \<lparr>data = pre @ [''<Table_Binary>'', ''</Table_Binary>''] @ ls @ [''</File>'']\<rparr>"
    using insert_xml_last [OF d hit none, of ls] by simp
  have "list_ex (str_in ''<Table_Binary>'') (data ?t)" by (simp add: list_ex_iff)
  then have "insert_table ?t \<lparr>data = ls\<rparr> = insert_xml ''</Table_Binary>'' (PyList ls) ''last'' ?t"
    by (simp add: insert_table_def)
  with ins show ?thesis by simp
qed

text \<open>
  Claim C8 as first stated puts the new lines before the \<open></Table_Binary>\<close> line. The
  code puts them after it: \<open>insert\<close> always writes behind its anchor.
\<close>

theorem insert_not_before_closing_tag:
  "insert_xml ''</Table_Binary>'' (PyList [''X'']) ''last''
       \<lparr>data = [''<Table_Binary>'', ''</Table_Binary>'', ''</File>'']\<rparr>
     = Inr \<lparr>data = [''<Table_Binary>'', ''</Table_Binary>'', ''X'', ''</File>'']\<rparr>
   \<and> insert_xml ''</Table_Binary>'' (PyList [''X'']) ''last''
       \<lparr>data = [''<Table_Binary>'', ''</Table_Binary>'', ''</File>'']\<rparr>
     \<noteq> Inr \<lparr>data = [''<Table_Binary>'', ''X'', ''</Table_Binary>'', ''</File>'']\<rparr>"
  by (simp add: insert_xml_def match_indices_Cons match_indices_Nil splice_def)

section \<open>Properties of the segment loop\<close>

lemma insert_xml_last_total: "\<exists>t'. insert_xml m (PyList c) ''last'' t = Inr t'"
  by (simp add: insert_xml_def Let_def)

lemma insert_table_total: "\<exists>host. insert_table t sub = Inr host"
  unfolding insert_table_def using insert_xml_last_total by simp

lemma fill_step_ok:
  assumes k: "0 \<le> k" "k < int (length (tableTemplate self))"
    and n: "numberDataTypes (trk234_info self) k = Some c"
    and r: "record_length (tableTemplate self ! nat k) = Some len"
  shows "\<exists>host. fill_step self b k =
           Inr (b + len * c,
                self\<lparr>Template := host,
                     tableTemplate := (tableTemplate self)
                        [nat k := filled b c (tableTemplate self ! nat k)]\<rparr>)"
proof -
  let ?T = "tableTemplate self"
  have pos: "py_position (length ?T) k = nat k" using k by (simp add: py_position_def)
  have get: "py_getitem ?T k = Inr (?T ! nat k)"
    using k by (simp add: py_getitem_def pos)
  from r obtain rv where rd: "read record_length_key ''first'' (?T ! nat k) = Inr rv"
    and pi: "py_int rv = Inr len"
    by (auto simp: record_length_def split: sum.splits)
  obtain host where h: "insert_table (Template self) (filled b c (?T ! nat k)) = Inr host"
    using insert_table_total by blast
  have "fill_step self b k =
           Inr (b + len * c, self\<lparr>Template := host, tableTemplate := ?T[nat k := filled b c (?T ! nat k)]\<rparr>)"
    unfolding fill_step_def by (simp add: n get rd pi pos Let_def h [unfolded filled_def] filled_def)
  then show ?thesis by blast
qed

lemma sum_list_take_nth:
  "j \<le> length ks \<Longrightarrow> sum_list (map f (take j ks)) = (\<Sum>i<j. f (ks ! i))"
proof (induction j)
  case 0
  then show ?case by simp
next
  case (Suc j)
  then have "take (Suc j) ks = take j ks @ [ks ! j]"
    by (simp add: take_Suc_conv_app_nth)
  with Suc show ?case by simp
qed

lemma fill_loop_offsets:
  fixes len cnt :: "int \<Rightarrow> int"
  assumes "distinct ks"
    and "\<forall>k\<in>set ks. 0 \<le> k \<and> k < int (length (tableTemplate self)) \<and>
           numberDataTypes (trk234_info self) k = Some (cnt k) \<and>
           record_length (tableTemplate self ! nat k) = Some (len k)"
  shows "\<exists>self'. fill_loop self b ks = Inr (b + sum_list (map (\<lambda>k. len k * cnt k) ks), self') \<and>
           (\<forall>n<length (tableTemplate self). int n \<notin> set ks \<longrightarrow>
              tableTemplate self' ! n = tableTemplate self ! n) \<and>
           (\<forall>j<length ks. tableTemplate self' ! nat (ks ! j) =
              filled (b + sum_list (map (\<lambda>k. len k * cnt k) (take j ks))) (cnt (ks ! j))
                (tableTemplate self ! nat (ks ! j)))"
  using assms
proof (induction ks arbitrary: self b)
  case Nil
  then show ?case by simp
next
  case (Cons k ks)
  let ?T = "tableTemplate self"
  let ?vol = "\<lambda>k. len k * cnt k"
  from Cons.prems have k: "0 \<le> k" "k < int (length ?T)"
    and n: "numberDataTypes (trk234_info self) k = Some (cnt k)"
    and r: "record_length (?T ! nat k) = Some (len k)"
    and notin: "k \<notin> set ks" and dist: "distinct ks"
    by simp_all
  from fill_step_ok [OF k n r, of b] obtain host where
    step: "fill_step self b k = Inr (b + len k * cnt k,
             self\<lparr>Template := host, tableTemplate := ?T[nat k := filled b (cnt k) (?T ! nat k)]\<rparr>)"
    by blast
  define self1 where
    "self1 = self\<lparr>Template := host, tableTemplate := ?T[nat k := filled b (cnt k) (?T ! nat k)]\<rparr>"
  have T1: "tableTemplate self1 = ?T[nat k := filled b (cnt k) (?T ! nat k)]"
    and info1: "trk234_info self1 = trk234_info self"
    by (simp_all add: self1_def)
  have len1: "length (tableTemplate self1) = length ?T" by (simp add: T1)
  have same: "tableTemplate self1 ! nat k' = ?T ! nat k'" if "k' \<in> set ks" for k'
  proof -
    from that Cons.prems(2) have "0 \<le> k'" by simp
    moreover from that notin have "k' \<noteq> k" by auto
    ultimately have "nat k' \<noteq> nat k" using k(1) by simp
    then show ?thesis by (simp add: T1)
  qed
  have ok1: "\<forall>k'\<in>set ks. 0 \<le> k' \<and> k' < int (length (tableTemplate self1)) \<and>
           numberDataTypes (trk234_info self1) k' = Some (cnt k') \<and>
           record_length (tableTemplate self1 ! nat k') = Some (len k')"
    using Cons.prems(2) same by (simp add: len1 info1)
  from Cons.IH [OF dist ok1, of "b + len k * cnt k"] obtain self' where
    run: "fill_loop self1 (b + len k * cnt k) ks =
            Inr (b + len k * cnt k + sum_list (map ?vol ks), self')"
    and keep: "\<forall>n<length (tableTemplate self1). int n \<notin> set ks \<longrightarrow>
              tableTemplate self' ! n = tableTemplate self1 ! n"
    and filled: "\<forall>j<length ks. tableTemplate self' ! nat (ks ! j) =
              filled (b + len k * cnt k + sum_list (map ?vol (take j ks))) (cnt (ks ! j))
                (tableTemplate self1 ! nat (ks ! j))"
    by blast
  have res: "fill_loop self b (k # ks) = Inr (b + sum_list (map ?vol (k # ks)), self')"
    using step run by (simp add: self1_def add.assoc)
  have keep': "\<forall>n<length ?T. int n \<notin> set (k # ks) \<longrightarrow> tableTemplate self' ! n = ?T ! n"
  proof (intro allI impI)
    fix n assume n: "n < length ?T" and out: "int n \<notin> set (k # ks)"
    then have "n \<noteq> nat k" using k(1) by auto
    then have "tableTemplate self1 ! n = ?T ! n" by (simp add: T1)
    moreover from n out keep have "tableTemplate self' ! n = tableTemplate self1 ! n"
      by (simp add: len1)
    ultimately show "tableTemplate self' ! n = ?T ! n" by simp
  qed
  have filled': "\<forall>j<length (k # ks). tableTemplate self' ! nat ((k # ks) ! j) =
              filled (b + sum_list (map ?vol (take j (k # ks)))) (cnt ((k # ks) ! j))
                (?T ! nat ((k # ks) ! j))"
  proof (intro allI impI)
    fix j assume j: "j < length (k # ks)"
    show "tableTemplate self' ! nat ((k # ks) ! j) =
              filled (b + sum_list (map ?vol (take j (k # ks)))) (cnt ((k # ks) ! j))
                (?T ! nat ((k # ks) ! j))"
    proof (cases j)
      case 0
      have "nat k < length (tableTemplate self1)" using k by (simp add: len1)
      moreover have "int (nat k) \<notin> set ks" using k(1) notin by simp
      ultimately have "tableTemplate self' ! nat k = tableTemplate self1 ! nat k"
        using keep by blast
      also have "\<dots> = filled b (cnt k) (?T ! nat k)" using k by (simp add: T1)
      finally show ?thesis using 0 by simp
    next
      case (Suc j')
      with j have j': "j' < length ks" by simp
      then have mem: "ks ! j' \<in> set ks" by simp
      from filled j' have "tableTemplate self' ! nat (ks ! j') =
              filled (b + len k * cnt k + sum_list (map ?vol (take j' ks))) (cnt (ks ! j'))
                (tableTemplate self1 ! nat (ks ! j'))" by blast
      with same [OF mem] show ?thesis using Suc by (simp add: add.assoc)
    qed
  qed
  from res keep' filled' show ?case by blast
qed

text \<open>
  Claim C2. Let the kinds be processed in strictly ascending order, each a valid index of
  the list of sub-templates, with \<open>cnt k\<close> records of kind \<open>k\<close> and a sub-template whose
  record length reads as \<open>len k\<close>. Then the loop runs to its end without an error, the
  offset written into the sub-template of the \<open>j\<close>-th kind is the sum of
  \<open>len * cnt\<close> over the kinds before it (zero for the first), and the final byte location
  is the sum over all kinds.
\<close>

theorem segment_offsets:
  fixes len cnt :: "int \<Rightarrow> int"
  assumes asc: "sorted_wrt (<) (dataTypes (trk234_info self))"
    and ok: "\<forall>k\<in>set (dataTypes (trk234_info self)).
           0 \<le> k \<and> k < int (length (tableTemplate self)) \<and>
           numberDataTypes (trk234_info self) k = Some (cnt k) \<and>
           record_length (tableTemplate self ! nat k) = Some (len k)"
  shows "\<exists>self'. fill_segments self =
             Inr (\<Sum>i<length (dataTypes (trk234_info self)).
                     len (dataTypes (trk234_info self) ! i) * cnt (dataTypes (trk234_info self) ! i),
                  self') \<and>
           (\<forall>j<length (dataTypes (trk234_info self)).
              tableTemplate self' ! nat (dataTypes (trk234_info self) ! j) =
                replace ''<groups>'' ''0'' True
                  (replace ''<records>'' (py_str (cnt (dataTypes (trk234_info self) ! j))) True
                     (replace offset_key
                        (py_str (\<Sum>i<j. len (dataTypes (trk234_info self) ! i) *
                                         cnt (dataTypes (trk234_info self) ! i)))
                        False (tableTemplate self ! nat (dataTypes (trk234_info self) ! j)))))"
proof -
  let ?ks = "dataTypes (trk234_info self)"
  let ?vol = "\<lambda>k. len k * cnt k"
  from asc have dist: "distinct ?ks" by (simp add: strict_sorted_iff)
  from fill_loop_offsets [OF dist ok, of 0] obtain self' where
    run: "fill_loop self 0 ?ks = Inr (0 + sum_list (map ?vol ?ks), self')"
    and filled: "\<forall>j<length ?ks. tableTemplate self' ! nat (?ks ! j) =
              filled (0 + sum_list (map ?vol (take j ?ks))) (cnt (?ks ! j))
                (tableTemplate self ! nat (?ks ! j))"
    by blast
  have total: "sum_list (map ?vol ?ks) = (\<Sum>i<length ?ks. ?vol (?ks ! i))"
    using sum_list_take_nth [of "length ?ks" ?ks ?vol] by simp
  have "fill_segments self = Inr (\<Sum>i<length ?ks. ?vol (?ks ! i), self')"
    using run total by (simp add: fill_segments_def)
  moreover have "\<forall>j<length ?ks. tableTemplate self' ! nat (?ks ! j) =
                replace ''<groups>'' ''0'' True
                  (replace ''<records>'' (py_str (cnt (?ks ! j))) True
                     (replace offset_key (py_str (\<Sum>i<j. ?vol (?ks ! i)))
                        False (tableTemplate self ! nat (?ks ! j))))"
  proof (intro allI impI)
    fix j assume j: "j < length ?ks"
    then have "sum_list (map ?vol (take j ?ks)) = (\<Sum>i<j. ?vol (?ks ! i))"
      by (simp add: sum_list_take_nth)
    with filled j show "tableTemplate self' ! nat (?ks ! j) =
                replace ''<groups>'' ''0'' True
                  (replace ''<records>'' (py_str (cnt (?ks ! j))) True
                     (replace offset_key (py_str (\<Sum>i<j. ?vol (?ks ! i)))
                        False (tableTemplate self ! nat (?ks ! j))))"
      by (simp add: filled_def)
  qed
  ultimately show ?thesis by blast
qed

text \<open>
  The scenario of C2: kind 2 with length 20 and 5 records, kind 5 with length 8 and 100
  records. The offsets read back from the two sub-templates are 0 and 100.
\<close>

theorem segment_offsets_witness:
  "sorted_wrt (<) [2, 5 :: int] \<and>
   record_length \<lparr>data = [offset_key @ ''7</offset>'', ''<records>0</records>'',
                          record_length_key @ ''20</record_length>'']\<rparr> = Some 20 \<and>
   record_length \<lparr>data = [offset_key @ ''7</offset>'', ''<records>0</records>'',
                          record_length_key @ ''8</record_length>'']\<rparr> = Some 8 \<and>
   (\<exists>self'.
      fill_segments
        \<lparr>Template = \<lparr>data = [''<File>'', ''</File>'']\<rparr>,
         tableTemplate = (replicate 18 \<lparr>data = []\<rparr>)
           [2 := \<lparr>data = [offset_key @ ''7</offset>'', ''<records>0</records>'',
                           record_length_key @ ''20</record_length>'']\<rparr>,
            5 := \<lparr>data = [offset_key @ ''7</offset>'', ''<records>0</records>'',
                           record_length_key @ ''8</record_length>'']\<rparr>],
         trk234_info = \<lparr>dataTypes = [2, 5], numberDataTypes = [2 \<mapsto> 5, 5 \<mapsto> 100]\<rparr>\<rparr>
        = Inr (900, self') \<and>
      read offset_key ''first'' (tableTemplate self' ! 2) = Inr (Str ''0'') \<and>
      read offset_key ''first'' (tableTemplate self' ! 5) = Inr (Str ''100''))"
proof -
  let ?s20 = "\<lparr>data = [offset_key @ ''7</offset>'', ''<records>0</records>'',
                          record_length_key @ ''20</record_length>'']\<rparr>"
  let ?s8 = "\<lparr>data = [offset_key @ ''7</offset>'', ''<records>0</records>'',
                          record_length_key @ ''8</record_length>'']\<rparr>"
  let ?T = "(replicate 18 \<lparr>data = []\<rparr>)[2 := ?s20, 5 := ?s8]"
  let ?L = "\<lparr>Template = \<lparr>data = [''<File>'', ''</File>'']\<rparr>, tableTemplate = ?T,
         trk234_info = \<lparr>dataTypes = [2, 5], numberDataTypes = [2 \<mapsto> 5, 5 \<mapsto> 100]\<rparr>\<rparr>"
  let ?len = "\<lambda>k::int. if k = 2 then 20 else (8::int)"
  let ?cnt = "\<lambda>k::int. if k = 2 then 5 else (100::int)"
  have asc: "sorted_wrt (<) [2, 5 :: int]" by simp
  have r20: "record_length ?s20 = Some 20" by code_simp
  have r8: "record_length ?s8 = Some 8" by code_simp
  have T2: "?T ! 2 = ?s20" by code_simp
  have T5: "?T ! 5 = ?s8" by code_simp
  have ok: "\<forall>k\<in>set (dataTypes (trk234_info ?L)).
           0 \<le> k \<and> k < int (length (tableTemplate ?L)) \<and>
           numberDataTypes (trk234_info ?L) k = Some (?cnt k) \<and>
           record_length (tableTemplate ?L ! nat k) = Some (?len k)"
    using r20 r8 T2 T5 by simp
  have asc': "sorted_wrt (<) (dataTypes (trk234_info ?L))" by simp
  from segment_offsets [OF asc' ok] obtain self' where
    run: "fill_segments ?L =
             Inr (\<Sum>i<length (dataTypes (trk234_info ?L)).
                     ?len (dataTypes (trk234_info ?L) ! i) * ?cnt (dataTypes (trk234_info ?L) ! i),
                  self')"
    and tabs: "\<forall>j<length (dataTypes (trk234_info ?L)).
              tableTemplate self' ! nat (dataTypes (trk234_info ?L) ! j) =
                replace ''<groups>'' ''0'' True
                  (replace ''<records>'' (py_str (?cnt (dataTypes (trk234_info ?L) ! j))) True
                     (replace offset_key
                        (py_str (\<Sum>i<j. ?len (dataTypes (trk234_info ?L) ! i) *
                                         ?cnt (dataTypes (trk234_info ?L) ! i)))
                        False (tableTemplate ?L ! nat (dataTypes (trk234_info ?L) ! j))))"
    by blast
  have total: "fill_segments ?L = Inr (900, self')"
    using run by (simp add: numeral_2_eq_2)
  have j0: "0 < length (dataTypes (trk234_info ?L))" and j1: "1 < length (dataTypes (trk234_info ?L))"
    by simp_all
  from tabs [rule_format, OF j0] have "tableTemplate self' ! 2 =
      replace ''<groups>'' ''0'' True (replace ''<records>'' (py_str 5) True
         (replace offset_key (py_str 0) False ?s20))"
    using T2 by simp
  moreover have "read offset_key ''first''
      (replace ''<groups>'' ''0'' True (replace ''<records>'' (py_str 5) True
         (replace offset_key (py_str 0) False ?s20))) = Inr (Str ''0'')"
    by code_simp
  ultimately have o2: "read offset_key ''first'' (tableTemplate self' ! 2) = Inr (Str ''0'')"
    by simp
  from tabs [rule_format, OF j1] have "tableTemplate self' ! 5 =
      replace ''<groups>'' ''0'' True (replace ''<records>'' (py_str 100) True
         (replace offset_key (py_str 100) False ?s8))"
    using T5 by simp
  moreover have "read offset_key ''first''
      (replace ''<groups>'' ''0'' True (replace ''<records>'' (py_str 100) True
         (replace offset_key (py_str 100) False ?s8))) = Inr (Str ''100'')"
    by code_simp
  ultimately have o5: "read offset_key ''first'' (tableTemplate self' ! 5) = Inr (Str ''100'')"
    by simp
  from asc r20 r8 total o2 o5 show ?thesis by blast
qed

end
